theory Spec2Isabelle
  imports Complex_Main "HOL-Library.List_Lexorder" "HOL-Library.Product_Lexorder" "HOL-Library.AList"
begin

section \<open>Text\<close>

text \<open>
  A Python \<open>str\<close> is a sequence of Unicode code points, and its comparison is the
  lexicographic order of the code points. A text is therefore a list of naturals; the
  names of attributes and of columns, which are identifiers of the program, stay
  Isabelle strings.
\<close>

type_synonym pystr = "nat list"

definition cps :: "string \<Rightarrow> pystr" where
  "cps s = map of_char s"

text \<open>The code points \<open>str.strip()\<close> removes: those for which \<open>str.isspace()\<close> holds.\<close>

definition is_space :: "nat \<Rightarrow> bool" where
  "is_space c \<longleftrightarrow>
     (9 \<le> c \<and> c \<le> 13) \<or> (28 \<le> c \<and> c \<le> 32) \<or> c = 133 \<or> c = 160 \<or> c = 5760 \<or>
     (8192 \<le> c \<and> c \<le> 8202) \<or> c = 8232 \<or> c = 8233 \<or> c = 8239 \<or> c = 8287 \<or> c = 12288"

definition lstrip :: "(nat \<Rightarrow> bool) \<Rightarrow> pystr \<Rightarrow> pystr" where
  "lstrip P s = dropWhile P s"

definition rstrip :: "(nat \<Rightarrow> bool) \<Rightarrow> pystr \<Rightarrow> pystr" where
  "rstrip P s = rev (dropWhile P (rev s))"

definition strip :: "pystr \<Rightarrow> pystr" where
  "strip s = rstrip is_space (lstrip is_space s)"

section \<open>Regular expressions\<close>

text \<open>
  The three patterns of the program are matched by Python's backtracking engine. A piece
  of a pattern maps the text still to be read to the texts that may remain after it, in
  the order in which the engine tries them: a literal has at most one, an optional piece
  tries the piece before it tries to skip it, and a greedy repetition of a character class
  tries the longest run first. A match is the first success.
\<close>

definition lit :: "pystr \<Rightarrow> pystr \<Rightarrow> pystr list" where
  "lit p s = (if take (length p) s = p then [drop (length p) s] else [])"

definition opt :: "(pystr \<Rightarrow> pystr list) \<Rightarrow> pystr \<Rightarrow> pystr list" where
  "opt r s = r s @ [s]"

definition then_re :: "(pystr \<Rightarrow> pystr list) \<Rightarrow> (pystr \<Rightarrow> pystr list) \<Rightarrow> pystr \<Rightarrow> pystr list" where
  "then_re r1 r2 s = concat (map r2 (r1 s))"

text \<open>\<open>([...]+)\<close>: the captured run and the text after it, longest run first.\<close>

definition greedy_plus :: "(nat \<Rightarrow> bool) \<Rightarrow> pystr \<Rightarrow> (pystr \<times> pystr) list" where
  "greedy_plus P s = map (\<lambda>k. (take k s, drop k s)) (rev [1..<Suc (length (takeWhile P s))])"

text \<open>The class \<open>[A-Za-z0-9_.]\<close>.\<close>

definition handle_char :: "nat \<Rightarrow> bool" where
  "handle_char c \<longleftrightarrow>
     (of_char CHR ''A'' \<le> c \<and> c \<le> of_char CHR ''Z'') \<or>
     (of_char CHR ''a'' \<le> c \<and> c \<le> of_char CHR ''z'') \<or>
     (of_char CHR ''0'' \<le> c \<and> c \<le> of_char CHR ''9'') \<or>
     c = of_char CHR ''_'' \<or> c = of_char CHR ''.''"

text \<open>
  The class \<open>\w\<close> of a \<open>str\<close> pattern: the alphanumeric code points of Unicode and the
  underscore. Below 128 the alphanumerics are the ASCII letters and digits; above, they
  are given by the Unicode database, which is the parameter \<open>ualnum\<close>.
\<close>

definition word_char :: "(nat \<Rightarrow> bool) \<Rightarrow> nat \<Rightarrow> bool" where
  "word_char ualnum c \<longleftrightarrow>
     (if c < 128
      then (of_char CHR ''A'' \<le> c \<and> c \<le> of_char CHR ''Z'') \<or>
           (of_char CHR ''a'' \<le> c \<and> c \<le> of_char CHR ''z'') \<or>
           (of_char CHR ''0'' \<le> c \<and> c \<le> of_char CHR ''9'')
      else ualnum c) \<or>
     c = of_char CHR ''_''"

text \<open>
  \<open>PROFILE_RE.match(s)\<close>, as \<open>m.group(1)\<close> of the match or \<open>None\<close>:
  \<open>(?:https?://)?(?:www\.)?instagram\.com/([A-Za-z0-9_.]+)/?\<close>, anchored at the start of
  \<open>s\<close> only. \<open>profile_prefix\<close> is the pattern up to the group.
\<close>

definition profile_prefix :: "pystr \<Rightarrow> pystr list" where
  "profile_prefix =
     then_re (opt (then_re (lit (cps ''http'')) (then_re (opt (lit (cps ''s''))) (lit (cps ''://'')))))
       (then_re (opt (lit (cps ''www.''))) (lit (cps ''instagram.com/'')))"

definition PROFILE_RE_match :: "pystr \<Rightarrow> pystr option" where
  "PROFILE_RE_match s =
     (case concat (map (\<lambda>r. concat (map (\<lambda>(g, r'). map (\<lambda>_. g) (opt (lit (cps ''/'')) r'))
                                          (greedy_plus handle_char r)))
            (profile_prefix s))
      of [] \<Rightarrow> None | g # _ \<Rightarrow> Some g)"

text \<open>
  \<open>re.findall\<close> for a pattern \<open>t([...]+)\<close> with one literal code point \<open>t\<close> before the
  group: the scan goes from left to right, a match takes \<open>t\<close> and the longest run after
  it, and the scan goes on behind the match.
\<close>

function findall_tagged :: "nat \<Rightarrow> (nat \<Rightarrow> bool) \<Rightarrow> pystr \<Rightarrow> pystr list" where
  "findall_tagged t P [] = []"
| "findall_tagged t P (c # cs) =
     (if c = t \<and> takeWhile P cs \<noteq> []
      then takeWhile P cs # findall_tagged t P (dropWhile P cs)
      else findall_tagged t P cs)"
  by pat_completeness auto
termination
  by (relation "measure (\<lambda>(t, P, s). length s)") (auto simp: le_imp_less_Suc length_dropWhile_le)

section \<open>Identifier Parser\<close>

definition parse_username :: "pystr \<Rightarrow> pystr" where
  "parse_username v =
     (case PROFILE_RE_match (strip v) of
        Some g \<Rightarrow> g
      | None \<Rightarrow> lstrip (\<lambda>c. c = of_char CHR ''@'') (strip v))"

section \<open>Python values\<close>

text \<open>
  The program reads post objects by \<open>getattr\<close> and tests what it finds with \<open>if x\<close>,
  \<open>x or y\<close>, \<open>hasattr\<close> and \<open>isinstance\<close>, so the values are modelled untyped. A float
  is a real number or the not-a-number marker \<open>PNaN\<close> (rounding and infinities are left
  out). \<open>PDateTime iso\<close> is a date-time object, whose method \<open>isoformat()\<close> returns
  \<open>iso\<close>. \<open>PObj\<close> is any other object, given by its data attributes.
\<close>

datatype pyval =
    PNone
  | PBool bool
  | PInt int
  | PFloat real
  | PNaN
  | PStr pystr
  | PList "pyval list"
  | PDateTime pystr
  | PObj "(string \<times> pyval) list"

datatype error = TypeError | KeyError

text \<open>Truth value testing: what \<open>if x\<close>, \<open>not x\<close> and \<open>x or y\<close> look at.\<close>

fun truthy :: "pyval \<Rightarrow> bool" where
  "truthy PNone = False"
| "truthy (PBool b) = b"
| "truthy (PInt i) = (i \<noteq> 0)"
| "truthy (PFloat r) = (r \<noteq> 0)"
| "truthy PNaN = True"
| "truthy (PStr s) = (s \<noteq> [])"
| "truthy (PList xs) = (xs \<noteq> [])"
| "truthy (PDateTime t) = True"
| "truthy (PObj attrs) = True"

definition py_or :: "pyval \<Rightarrow> pyval \<Rightarrow> pyval" where
  "py_or a b = (if truthy a then a else b)"

text \<open>
  \<open>getattr(obj, name, None)\<close>. The values that are not objects have none of the
  attributes the program asks for.
\<close>

fun getattr :: "pyval \<Rightarrow> string \<Rightarrow> pyval" where
  "getattr (PObj attrs) name = (case map_of attrs name of Some v \<Rightarrow> v | None \<Rightarrow> PNone)"
| "getattr v name = PNone"

text \<open>
  \<open>hasattr(v, "isoformat")\<close> and the call \<open>v.isoformat()\<close>. An attribute of a \<open>PObj\<close> is
  a value, and no value is callable: calling it raises \<open>TypeError\<close>.
\<close>

fun hasattr_isoformat :: "pyval \<Rightarrow> bool" where
  "hasattr_isoformat (PDateTime t) = True"
| "hasattr_isoformat (PObj attrs) = (map_of attrs ''isoformat'' \<noteq> None)"
| "hasattr_isoformat v = False"

fun call_isoformat :: "pyval \<Rightarrow> error + pyval" where
  "call_isoformat (PDateTime t) = Inr (PStr t)"
| "call_isoformat v = Inl TypeError"

text \<open>
  The text an f-string puts in for \<open>{v}\<close>: a \<open>str\<close> as it is; for any other value
  Python's \<open>format\<close>, which is the parameter \<open>fmt\<close>.
\<close>

definition format_value :: "(pyval \<Rightarrow> pystr) \<Rightarrow> pyval \<Rightarrow> pystr" where
  "format_value fmt v = (case v of PStr s \<Rightarrow> s | _ \<Rightarrow> fmt v)"

fun join :: "pystr \<Rightarrow> pystr list \<Rightarrow> pystr" where
  "join sep [] = []"
| "join sep [x] = x"
| "join sep (x # y # ys) = x @ sep @ join sep (y # ys)"

section \<open>Text Entity Extractor\<close>

text \<open>
  \<open>re.findall\<close> accepts a \<open>str\<close> only; with any other value that passed \<open>if not text\<close>
  it raises \<open>TypeError\<close>. \<open>sorted(set(...))\<close> is the list of the distinct elements in
  ascending order.
\<close>

definition extract_hashtags :: "(nat \<Rightarrow> bool) \<Rightarrow> pyval \<Rightarrow> error + pystr list" where
  "extract_hashtags ualnum text =
     (if \<not> truthy text then Inr []
      else case text of
        PStr s \<Rightarrow> Inr (sorted_list_of_set (set (findall_tagged (of_char CHR ''#'') (word_char ualnum) s)))
      | _ \<Rightarrow> Inl TypeError)"

definition extract_mentions :: "pyval \<Rightarrow> error + pystr list" where
  "extract_mentions text =
     (if \<not> truthy text then Inr []
      else case text of
        PStr s \<Rightarrow> Inr (sorted_list_of_set (set (findall_tagged (of_char CHR ''@'') handle_char s)))
      | _ \<Rightarrow> Inl TypeError)"

section \<open>Row Normalizer\<close>

text \<open>
  The row is a \<open>dict\<close>, whose keys keep the order in which they were first stored: an
  association list. \<open>d[k] = v\<close> is \<open>AList.update\<close>.
\<close>

type_synonym row = "(string \<times> pyval) list"

definition media_to_row :: "(nat \<Rightarrow> bool) \<Rightarrow> (pyval \<Rightarrow> pystr) \<Rightarrow> pyval \<Rightarrow> error + row" where
  "media_to_row ualnum fmt m =
     (let caption = getattr m ''caption_text'';
          taken_at = getattr m ''taken_at''
      in case (if hasattr_isoformat taken_at then call_isoformat taken_at else Inr taken_at) of
           Inl e \<Rightarrow> Inl e
         | Inr taken_at_iso \<Rightarrow>
      let code = getattr m ''code'';
          post_url = (if truthy code
                      then PStr (cps ''https://www.instagram.com/p/'' @ format_value fmt code @ cps ''/'')
                      else PNone);
          width = py_or (getattr m ''thumbnail_width'') (getattr m ''width'');
          height = py_or (getattr m ''thumbnail_height'') (getattr m ''height'');
          duration = getattr m ''video_duration'';
          loc = getattr m ''location'';
          location_name = (if truthy loc then py_or (getattr loc ''name'') (getattr loc ''slug'') else PNone)
      in case extract_hashtags ualnum caption of
           Inl e \<Rightarrow> Inl e
         | Inr hashtags \<Rightarrow>
      case extract_mentions caption of
           Inl e \<Rightarrow> Inl e
         | Inr mentions \<Rightarrow>
      let d = [(''id'', getattr m ''id''),
               (''pk'', getattr m ''pk''),
               (''shortcode'', code),
               (''url'', post_url),
               (''taken_at'', taken_at_iso),
               (''media_type'', getattr m ''media_type''),
               (''product_type'', getattr m ''product_type''),
               (''like_count'', getattr m ''like_count''),
               (''comment_count'', getattr m ''comment_count''),
               (''view_count'', py_or (getattr m ''view_count'') (getattr m ''play_count'')),
               (''play_count'', getattr m ''play_count''),
               (''caption'', caption),
               (''hashtags'', PStr (join (cps '', '') hashtags)),
               (''mentions'', PStr (join (cps '', '') mentions)),
               (''duration_sec'', duration),
               (''width'', width),
               (''height'', height),
               (''location'', location_name),
               (''is_paid_partnership'', getattr m ''is_paid_partnership''),
               (''is_comments_disabled'', getattr m ''commenting_disabled_for_viewer''),
               (''thumbnail_url'', getattr m ''thumbnail_url''),
               (''video_url'', getattr m ''video_url'')];
          resources = getattr m ''resources''
      in Inr (AList.update ''carousel_count''
                (case resources of
                   PList xs \<Rightarrow> if truthy resources then PInt (int (length xs)) else PNone
                 | _ \<Rightarrow> PNone)
                d))"

section \<open>Tables\<close>

text \<open>
  A pandas \<open>DataFrame\<close> with the default index: the number of rows, and the columns in
  their order, each with one cell per row. \<open>df.get(c)\<close> is the column or \<open>None\<close>;
  \<open>df[c] = v\<close> replaces the column \<open>c\<close> where it stands or appends it, a scalar \<open>v\<close>
  filling every row.
\<close>

record dataframe =
  nrows :: nat
  columns :: "(string \<times> pyval list) list"

definition wf_df :: "dataframe \<Rightarrow> bool" where
  "wf_df df = list_all (\<lambda>(c, xs). length xs = nrows df) (columns df)"

definition df_get :: "dataframe \<Rightarrow> string \<Rightarrow> pyval list option" where
  "df_get df c = map_of (columns df) c"

definition has_column :: "dataframe \<Rightarrow> string \<Rightarrow> bool" where
  "has_column df c = (c \<in> set (map fst (columns df)))"

text \<open>
  The result of \<open>pd.to_numeric(..., errors="coerce")\<close> and of the arithmetic on it: a
  float for every row, or one float when the argument was not a column. \<open>None\<close> is
  not-a-number.
\<close>

datatype numeric = Scalar "real option" | Series "real option list"

text \<open>
  The coercion of one cell: a number is itself, \<open>None\<close> and not-a-number are
  not-a-number. What pandas makes of any other object (a numeric text parses, a list does
  not) is the parameter \<open>co\<close>.
\<close>

definition coerce_cell :: "(pyval \<Rightarrow> real option) \<Rightarrow> pyval \<Rightarrow> real option" where
  "coerce_cell co v =
     (case v of
        PInt i \<Rightarrow> Some (real_of_int i)
      | PFloat r \<Rightarrow> Some r
      | PNone \<Rightarrow> None
      | PNaN \<Rightarrow> None
      | _ \<Rightarrow> co v)"

definition to_numeric :: "(pyval \<Rightarrow> real option) \<Rightarrow> pyval list option \<Rightarrow> numeric" where
  "to_numeric co arg =
     (case arg of
        None \<Rightarrow> Scalar (coerce_cell co PNone)
      | Some xs \<Rightarrow> Series (map (coerce_cell co) xs))"

definition add_float :: "real option \<Rightarrow> real option \<Rightarrow> real option" where
  "add_float a b = (case (a, b) of (Some x, Some y) \<Rightarrow> Some (x + y) | _ \<Rightarrow> None)"

definition div_float :: "real option \<Rightarrow> int \<Rightarrow> real option" where
  "div_float a f = map_option (\<lambda>x. x / real_of_int f) a"

fun num_add :: "numeric \<Rightarrow> numeric \<Rightarrow> numeric" where
  "num_add (Series xs) (Series ys) = Series (map2 add_float xs ys)"
| "num_add (Series xs) (Scalar y) = Series (map (\<lambda>x. add_float x y) xs)"
| "num_add (Scalar x) (Series ys) = Series (map (add_float x) ys)"
| "num_add (Scalar x) (Scalar y) = Scalar (add_float x y)"

fun num_div :: "numeric \<Rightarrow> int \<Rightarrow> numeric" where
  "num_div (Series xs) f = Series (map (\<lambda>x. div_float x f) xs)"
| "num_div (Scalar x) f = Scalar (div_float x f)"

definition float_cell :: "real option \<Rightarrow> pyval" where
  "float_cell a = (case a of None \<Rightarrow> PNaN | Some x \<Rightarrow> PFloat x)"

definition set_scalar :: "dataframe \<Rightarrow> string \<Rightarrow> pyval \<Rightarrow> dataframe" where
  "set_scalar df c v = df\<lparr>columns := AList.update c (replicate (nrows df) v) (columns df)\<rparr>"

fun set_numeric :: "dataframe \<Rightarrow> string \<Rightarrow> numeric \<Rightarrow> dataframe" where
  "set_numeric df c (Scalar x) = set_scalar df c (float_cell x)"
| "set_numeric df c (Series xs) = df\<lparr>columns := AList.update c (map float_cell xs) (columns df)\<rparr>"

section \<open>Virality Calculator\<close>

text \<open>
  \<open>followers\<close> is an \<open>int\<close> or \<open>None\<close>. \<open>not followers\<close> holds for \<open>None\<close> and for \<open>0\<close>.
  The function works on a copy, so the table it is given stays as it is.
\<close>

definition compute_virality :: "(pyval \<Rightarrow> real option) \<Rightarrow> dataframe \<Rightarrow> int option \<Rightarrow> dataframe" where
  "compute_virality co df followers =
     (if (case followers of None \<Rightarrow> True | Some f \<Rightarrow> f = 0 \<or> f \<le> 0)
      then
        let df = set_scalar df ''followers_at_scrape'' PNaN;
            df = set_scalar df ''views_per_follower'' PNaN;
            df = set_scalar df ''likes_per_follower'' PNaN;
            df = set_scalar df ''comments_per_follower'' PNaN;
            df = set_scalar df ''er_per_follower'' PNaN
        in df
      else
        case followers of
          None \<Rightarrow> df \<comment> \<open>not reached: \<open>followers\<close> is an \<open>int\<close> here\<close>
        | Some f \<Rightarrow>
        let df = set_scalar df ''followers_at_scrape'' (PInt f);
            vc = to_numeric co (df_get df ''view_count'');
            lc = to_numeric co (df_get df ''like_count'');
            cc = to_numeric co (df_get df ''comment_count'');
            df = set_numeric df ''views_per_follower'' (num_div vc f);
            df = set_numeric df ''likes_per_follower'' (num_div lc f);
            df = set_numeric df ''comments_per_follower'' (num_div cc f);
            df = set_numeric df ''er_per_follower'' (num_div (num_add lc cc) f)
        in df)"

section \<open>Ranking/Export Assembler\<close>

text \<open>
  \<open>df.sort_values(by, ascending)\<close>. A key column is read as floats; a cell that is
  neither a number nor missing has no place in the order of numbers, and the comparison
  raises \<open>TypeError\<close>. pandas gives every key a code that grows along the wanted order,
  the missing values after all others, for a descending key the larger value the smaller
  code.
\<close>

definition key_cell :: "pyval \<Rightarrow> error + real option" where
  "key_cell v =
     (case v of
        PFloat r \<Rightarrow> Inr (Some r)
      | PInt i \<Rightarrow> Inr (Some (real_of_int i))
      | PNaN \<Rightarrow> Inr None
      | PNone \<Rightarrow> Inr None
      | _ \<Rightarrow> Inl TypeError)"

fun key_column :: "pyval list \<Rightarrow> error + real option list" where
  "key_column [] = Inr []"
| "key_column (v # vs) =
     (case key_cell v of
        Inl e \<Rightarrow> Inl e
      | Inr k \<Rightarrow> (case key_column vs of Inl e \<Rightarrow> Inl e | Inr ks \<Rightarrow> Inr (k # ks)))"

definition sort_code :: "bool \<Rightarrow> real option \<Rightarrow> bool \<times> real" where
  "sort_code asc k = (case k of None \<Rightarrow> (True, 0) | Some x \<Rightarrow> (False, if asc then x else - x))"

text \<open>
  With more than one key pandas sorts the row numbers by their lists of codes with a
  stable sort (\<open>lexsort_indexer\<close>). With one key it uses numpy's quicksort, which is not
  stable: its permutation is the parameter \<open>nargsort\<close>.
\<close>

definition lexsort_indexer :: "(bool \<times> real) list list \<Rightarrow> nat \<Rightarrow> nat list" where
  "lexsort_indexer keys n = sort_key (\<lambda>i. map (\<lambda>k. k ! i) keys) [0..<n]"

definition take_rows :: "nat list \<Rightarrow> dataframe \<Rightarrow> dataframe" where
  "take_rows indexer df =
     df\<lparr>nrows := length indexer,
        columns := map (\<lambda>(c, xs). (c, map (\<lambda>i. xs ! i) indexer)) (columns df)\<rparr>"

fun key_columns :: "dataframe \<Rightarrow> (string \<times> bool) list \<Rightarrow> error + (bool \<times> real) list list" where
  "key_columns df [] = Inr []"
| "key_columns df ((c, asc) # cs) =
     (case df_get df c of
        None \<Rightarrow> Inl KeyError
      | Some xs \<Rightarrow>
          (case key_column xs of
             Inl e \<Rightarrow> Inl e
           | Inr ks \<Rightarrow>
               (case key_columns df cs of
                  Inl e \<Rightarrow> Inl e
                | Inr kss \<Rightarrow> Inr (map (sort_code asc) ks # kss))))"

definition sort_values ::
  "((bool \<times> real) list \<Rightarrow> nat list) \<Rightarrow> dataframe \<Rightarrow> (string \<times> bool) list \<Rightarrow> error + dataframe" where
  "sort_values nargsort df sort_cols =
     (case key_columns df sort_cols of
        Inl e \<Rightarrow> Inl e
      | Inr keys \<Rightarrow>
          if length keys > 1 then Inr (take_rows (lexsort_indexer keys (nrows df)) df)
          else if length keys = 1 then Inr (take_rows (nargsort (hd keys)) df)
          else Inr df)"

text \<open>
  The ranked view of \<open>_run_parser_thread\<close>: the columns to sort by are those of the two
  that the table has, both descending; an exception of the sort leaves the table as it is.
\<close>

definition rank_view :: "((bool \<times> real) list \<Rightarrow> nat list) \<Rightarrow> dataframe \<Rightarrow> dataframe" where
  "rank_view nargsort df =
     (let sort_cols =
            (if has_column df ''views_per_follower'' then [(''views_per_follower'', False)] else []) @
            (if has_column df ''er_per_follower'' then [(''er_per_follower'', False)] else [])
      in if sort_cols \<noteq> []
         then (case sort_values nargsort df sort_cols of Inl e \<Rightarrow> df | Inr df_sorted \<Rightarrow> df_sorted)
         else df)"

section \<open>The vocabulary of the specification\<close>

text \<open>
  A profile URL, in the words of the specification: an optional scheme, an optional
  \<open>www.\<close>, \<open>instagram.com/\<close>, the handle \<open>h\<close> as a non-empty run of letters, digits,
  \<open>_\<close> and \<open>.\<close> that ends where the text ends or the next code point is none of these,
  and any text after it.
\<close>

definition is_profile_url :: "pystr \<Rightarrow> pystr \<Rightarrow> bool" where
  "is_profile_url s h \<longleftrightarrow>
     (\<exists>scheme www rest.
        scheme \<in> {[], cps ''http://'', cps ''https://''} \<and> www \<in> {[], cps ''www.''} \<and>
        s = scheme @ www @ cps ''instagram.com/'' @ h @ rest \<and>
        h \<noteq> [] \<and> list_all handle_char h \<and> (rest = [] \<or> \<not> handle_char (hd rest)))"

text \<open>
  \<open>g\<close> is a run of \<open>P\<close> code points that follows an occurrence of \<open>t\<close> in \<open>s\<close>: it is not
  empty and it ends where the text ends or the next code point is not in \<open>P\<close>.
\<close>

definition tagged_run :: "nat \<Rightarrow> (nat \<Rightarrow> bool) \<Rightarrow> pystr \<Rightarrow> pystr \<Rightarrow> bool" where
  "tagged_run t P s g \<longleftrightarrow>
     (\<exists>pre post. s = pre @ t # g @ post \<and> g \<noteq> [] \<and> list_all P g \<and> (post = [] \<or> \<not> P (hd post)))"

text \<open>The fields of a row, in the order of the columns.\<close>

definition ROW_FIELDS :: "string list" where
  "ROW_FIELDS =
     [''id'', ''pk'', ''shortcode'', ''url'', ''taken_at'', ''media_type'', ''product_type'',
      ''like_count'', ''comment_count'', ''view_count'', ''play_count'', ''caption'', ''hashtags'',
      ''mentions'', ''duration_sec'', ''width'', ''height'', ''location'', ''is_paid_partnership'',
      ''is_comments_disabled'', ''thumbnail_url'', ''video_url'', ''carousel_count'']"

text \<open>
  The post objects for which the Row Normalizer returns a row: a \<open>taken_at\<close> that has an
  attribute \<open>isoformat\<close> is a date-time object, and a \<open>caption_text\<close> that is not empty or
  null is a text.
\<close>

definition is_str :: "pyval \<Rightarrow> bool" where
  "is_str v = (case v of PStr s \<Rightarrow> True | _ \<Rightarrow> False)"

definition is_datetime :: "pyval \<Rightarrow> bool" where
  "is_datetime v = (case v of PDateTime t \<Rightarrow> True | _ \<Rightarrow> False)"

definition row_defined :: "pyval \<Rightarrow> bool" where
  "row_defined m \<longleftrightarrow>
     (hasattr_isoformat (getattr m ''taken_at'') \<longrightarrow> is_datetime (getattr m ''taken_at'')) \<and>
     (truthy (getattr m ''caption_text'') \<longrightarrow> is_str (getattr m ''caption_text''))"

definition is_list :: "pyval \<Rightarrow> bool" where
  "is_list v = (case v of PList xs \<Rightarrow> True | _ \<Rightarrow> False)"

text \<open>A field of the row that the Row Normalizer returned, \<open>None\<close> when it raised.\<close>

definition row_field :: "error + row \<Rightarrow> string \<Rightarrow> pyval option" where
  "row_field r k = (case r of Inl e \<Rightarrow> None | Inr d \<Rightarrow> map_of d k)"

text \<open>The floats of a numeric result, one per row: a scalar stands for every row.\<close>

fun broadcast :: "nat \<Rightarrow> numeric \<Rightarrow> real option list" where
  "broadcast n (Scalar x) = replicate n x"
| "broadcast n (Series xs) = xs"

text \<open>
  The cell of row \<open>i\<close> in column \<open>c\<close>, as the numeric coercion reads it: a column that the
  table does not have reads as \<open>None\<close>.
\<close>

definition cell :: "dataframe \<Rightarrow> string \<Rightarrow> nat \<Rightarrow> pyval" where
  "cell df c i = (case df_get df c of None \<Rightarrow> PNone | Some xs \<Rightarrow> xs ! i)"

text \<open>The five columns that the Virality Calculator writes.\<close>

definition METRIC_COLUMNS :: "string list" where
  "METRIC_COLUMNS =
     [''followers_at_scrape'', ''views_per_follower'', ''likes_per_follower'',
      ''comments_per_follower'', ''er_per_follower'']"

text \<open>
  The ranking of two rows \<open>a\<close> and \<open>b\<close> of a table: \<open>a\<close> stands before \<open>b\<close> when its
  \<open>views_per_follower\<close> is higher; when these are the same, when its \<open>er_per_follower\<close> is
  higher; and when these are the same too, when \<open>a\<close> was fetched before \<open>b\<close>. A number is
  higher than a smaller number and than not-a-number.
\<close>

definition metric :: "dataframe \<Rightarrow> string \<Rightarrow> nat \<Rightarrow> real option" where
  "metric df c i = (case cell df c i of PFloat x \<Rightarrow> Some x | _ \<Rightarrow> None)"

definition higher :: "real option \<Rightarrow> real option \<Rightarrow> bool" where
  "higher a b = (case a of None \<Rightarrow> False | Some x \<Rightarrow> (case b of None \<Rightarrow> True | Some y \<Rightarrow> y < x))"

definition ranks_before :: "dataframe \<Rightarrow> nat \<Rightarrow> nat \<Rightarrow> bool" where
  "ranks_before df a b \<longleftrightarrow>
     higher (metric df ''views_per_follower'' a) (metric df ''views_per_follower'' b) \<or>
     (metric df ''views_per_follower'' a = metric df ''views_per_follower'' b \<and>
      (higher (metric df ''er_per_follower'' a) (metric df ''er_per_follower'' b) \<or>
       (metric df ''er_per_follower'' a = metric df ''er_per_follower'' b \<and> a < b)))"

text \<open>
  Values for the parameters in the examples, whose texts are ASCII and whose counters
  are numbers: no alphanumeric code point above 127, an empty text for a formatted value,
  no number for an object, the identity for the unstable sort.
\<close>

definition ualnum0 :: "nat \<Rightarrow> bool" where
  "ualnum0 c = False"

definition fmt0 :: "pyval \<Rightarrow> pystr" where
  "fmt0 v = []"

definition co0 :: "pyval \<Rightarrow> real option" where
  "co0 v = None"

definition nargsort0 :: "(bool \<times> real) list \<Rightarrow> nat list" where
  "nargsort0 ks = [0..<length ks]"

section \<open>Properties of the patterns\<close>

lemma set_lit: "set (lit p s) = {r. s = p @ r}"
  by (auto simp: lit_def) (metis append_take_drop_id)

lemma set_opt: "set (opt r s) = insert s (set (r s))"
  by (simp add: opt_def)

lemma set_then_re: "set (then_re r1 r2 s) = (\<Union>x \<in> set (r1 s). set (r2 x))"
  by (simp add: then_re_def)

lemma scheme_sound:
  assumes "x \<in> set (opt (then_re (lit (cps ''http'')) (then_re (opt (lit (cps ''s''))) (lit (cps ''://'')))) s)"
  shows "\<exists>scheme. scheme \<in> {[], cps ''http://'', cps ''https://''} \<and> s = scheme @ x"
proof -
  have a: "cps ''http'' @ cps ''://'' @ x = cps ''http://'' @ x"
    and b: "cps ''http'' @ cps ''s'' @ cps ''://'' @ x = cps ''https://'' @ x"
    by (simp_all add: cps_def)
  from assms have "s = x \<or> s = cps ''http'' @ cps ''://'' @ x \<or> s = cps ''http'' @ cps ''s'' @ cps ''://'' @ x"
    by (simp only: set_then_re set_opt set_lit) blast
  then show ?thesis unfolding a b by blast
qed

lemma www_sound:
  assumes "r \<in> set (then_re (opt (lit (cps ''www.''))) (lit (cps ''instagram.com/'')) x)"
  shows "\<exists>www. www \<in> {[], cps ''www.''} \<and> x = www @ cps ''instagram.com/'' @ r"
proof -
  from assms have "x = cps ''instagram.com/'' @ r \<or> x = cps ''www.'' @ cps ''instagram.com/'' @ r"
    by (simp only: set_then_re set_opt set_lit) blast
  then show ?thesis by auto
qed

lemma profile_prefix_sound:
  assumes "r \<in> set (profile_prefix s)"
  shows "\<exists>scheme www. scheme \<in> {[], cps ''http://'', cps ''https://''} \<and> www \<in> {[], cps ''www.''} \<and>
     s = scheme @ www @ cps ''instagram.com/'' @ r"
proof -
  from assms obtain x where x: "x \<in> set (opt (then_re (lit (cps ''http'')) (then_re (opt (lit (cps ''s''))) (lit (cps ''://'')))) s)"
    and r: "r \<in> set (then_re (opt (lit (cps ''www.''))) (lit (cps ''instagram.com/'')) x)"
    unfolding profile_prefix_def set_then_re [of "opt _"] by blast
  from scheme_sound [OF x] www_sound [OF r] show ?thesis by blast
qed


lemma profile_prefix_complete:
  assumes "scheme \<in> {[], cps ''http://'', cps ''https://''}" "www \<in> {[], cps ''www.''}"
  shows "profile_prefix (scheme @ www @ cps ''instagram.com/'' @ r) = [r]"
proof -
  have "profile_prefix (cps ''instagram.com/'' @ r) = [r]"
    "profile_prefix (cps ''www.'' @ cps ''instagram.com/'' @ r) = [r]"
    "profile_prefix (cps ''http://'' @ cps ''instagram.com/'' @ r) = [r]"
    "profile_prefix (cps ''http://'' @ cps ''www.'' @ cps ''instagram.com/'' @ r) = [r]"
    "profile_prefix (cps ''https://'' @ cps ''instagram.com/'' @ r) = [r]"
    "profile_prefix (cps ''https://'' @ cps ''www.'' @ cps ''instagram.com/'' @ r) = [r]"
    by (simp_all add: profile_prefix_def then_re_def opt_def lit_def cps_def)
  with assms show ?thesis by auto
qed

lemma takeWhile_run:
  assumes "list_all P h" "rest = [] \<or> \<not> P (hd rest)"
  shows "takeWhile P (h @ rest) = h" "dropWhile P (h @ rest) = rest"
  using assms by (cases rest; simp add: list_all_iff takeWhile_append dropWhile_append)+

lemma greedy_plus_run:
  assumes "h \<noteq> []" "list_all P h" "rest = [] \<or> \<not> P (hd rest)"
  shows "\<exists>tl. greedy_plus P (h @ rest) = (h, rest) # tl"
proof -
  from assms(1) obtain n where n: "length h = Suc n" by (cases h) auto
  have "takeWhile P (h @ rest) = h" using assms(2,3) by (rule takeWhile_run)
  then show ?thesis by (simp add: greedy_plus_def n)
qed

lemma greedy_plus_nonempty:
  assumes "greedy_plus P r \<noteq> []"
  shows "takeWhile P r \<noteq> []"
  using assms by (auto simp: greedy_plus_def)

lemma PROFILE_RE_match_complete:
  assumes "is_profile_url s h"
  shows "PROFILE_RE_match s = Some h"
proof -
  from assms obtain scheme www rest where
    sw: "scheme \<in> {[], cps ''http://'', cps ''https://''}" "www \<in> {[], cps ''www.''}"
    and s: "s = scheme @ www @ cps ''instagram.com/'' @ h @ rest"
    and h: "h \<noteq> []" "list_all handle_char h" "rest = [] \<or> \<not> handle_char (hd rest)"
    unfolding is_profile_url_def by blast
  from greedy_plus_run [OF h] obtain tl where tl: "greedy_plus handle_char (h @ rest) = (h, rest) # tl" ..
  have "profile_prefix s = [h @ rest]"
    unfolding s using sw by (rule profile_prefix_complete)
  then show ?thesis
    by (simp add: PROFILE_RE_match_def tl opt_def lit_def split: list.splits)
qed

lemma PROFILE_RE_match_sound:
  assumes "PROFILE_RE_match s = Some g"
  shows "is_profile_url s g"
proof -
  define f where "f = (\<lambda>r. concat (map (\<lambda>(g, r'). map (\<lambda>_. g) (opt (lit (cps ''/'')) r'))
                                          (greedy_plus handle_char r)))"
  from assms have "concat (map f (profile_prefix s)) \<noteq> []"
    unfolding PROFILE_RE_match_def f_def [symmetric]
    by (cases "concat (map f (profile_prefix s))") simp_all
  then obtain r where r: "r \<in> set (profile_prefix s)" and "f r \<noteq> []"
    by auto
  then have p: "greedy_plus handle_char r \<noteq> []"
    by (auto simp: f_def)
  let ?h = "takeWhile handle_char r"
  from profile_prefix_sound [OF r] obtain scheme www where
    sw: "scheme \<in> {[], cps ''http://'', cps ''https://''}" "www \<in> {[], cps ''www.''}"
    and s: "s = scheme @ www @ cps ''instagram.com/'' @ r" by blast
  have "is_profile_url s ?h"
    unfolding is_profile_url_def
  proof (intro exI conjI)
    show "s = scheme @ www @ cps ''instagram.com/'' @ ?h @ dropWhile handle_char r"
      using s by simp
    show "?h \<noteq> []" using p by (rule greedy_plus_nonempty)
    show "list_all handle_char ?h" by (simp add: list_all_iff) (meson set_takeWhileD)
    show "dropWhile handle_char r = [] \<or> \<not> handle_char (hd (dropWhile handle_char r))"
      using hd_dropWhile by blast
  qed (rule sw)+
  moreover from this have "PROFILE_RE_match s = Some ?h" by (rule PROFILE_RE_match_complete)
  ultimately show ?thesis using assms by simp
qed

lemma PROFILE_RE_match_iff: "PROFILE_RE_match s = Some h \<longleftrightarrow> is_profile_url s h"
  using PROFILE_RE_match_sound PROFILE_RE_match_complete by blast

lemma dropWhile_tag:
  assumes "\<not> P t"
  shows "\<exists>pre'. dropWhile P (pre @ t # x) = pre' @ t # x"
proof (cases "\<forall>c \<in> set pre. P c")
  case True
  then have "dropWhile P (pre @ t # x) = [] @ t # x"
    using assms by (simp add: dropWhile_append)
  then show ?thesis by blast
next
  case False
  then have "dropWhile P (pre @ t # x) = dropWhile P pre @ t # x"
    by (auto simp add: dropWhile_append)
  then show ?thesis by blast
qed

lemma findall_tagged_sound:
  "g \<in> set (findall_tagged t P s) \<Longrightarrow> tagged_run t P s g"
proof (induction t P s rule: findall_tagged.induct)
  case (1 t P)
  then show ?case by simp
next
  case (2 t P c cs)
  show ?case
  proof (cases "c = t \<and> takeWhile P cs \<noteq> []")
    case True
    from "2.prems" True consider "g = takeWhile P cs" | "g \<in> set (findall_tagged t P (dropWhile P cs))"
      by auto
    then show ?thesis
    proof cases
      case 1
      have "c # cs = [] @ t # g @ dropWhile P cs" using True 1 by simp
      moreover have "list_all P g" unfolding 1 by (simp add: list_all_iff) (meson set_takeWhileD)
      moreover have "dropWhile P cs = [] \<or> \<not> P (hd (dropWhile P cs))" using hd_dropWhile by blast
      moreover have "g \<noteq> []" using True 1 by simp
      ultimately show ?thesis unfolding tagged_run_def by blast
    next
      case 2
      with "2.IH"(1) True have "tagged_run t P (dropWhile P cs) g" by blast
      then obtain pre post where d: "dropWhile P cs = pre @ t # g @ post"
        and g: "g \<noteq> []" "list_all P g" "post = [] \<or> \<not> P (hd post)"
        unfolding tagged_run_def by blast
      have "c # cs = (c # takeWhile P cs @ pre) @ t # g @ post"
        using d by (metis append_Cons append_assoc takeWhile_dropWhile_id)
      with g show ?thesis unfolding tagged_run_def by blast
    qed
  next
    case False
    with "2.prems" have "g \<in> set (findall_tagged t P cs)" by auto
    with "2.IH"(2) False have "tagged_run t P cs g" by blast
    then obtain pre post where d: "cs = pre @ t # g @ post"
      and g: "g \<noteq> []" "list_all P g" "post = [] \<or> \<not> P (hd post)"
      unfolding tagged_run_def by blast
    have "c # cs = (c # pre) @ t # g @ post" using d by simp
    with g show ?thesis unfolding tagged_run_def by blast
  qed
qed

lemma findall_tagged_complete_aux:
  "s = pre @ t # g @ post \<Longrightarrow> \<not> P t \<Longrightarrow> g \<noteq> [] \<Longrightarrow> list_all P g \<Longrightarrow>
   post = [] \<or> \<not> P (hd post) \<Longrightarrow> g \<in> set (findall_tagged t P s)"
proof (induction t P s arbitrary: pre rule: findall_tagged.induct)
  case (1 t P)
  then show ?case by simp
next
  case (2 t P c cs)
  note g = \<open>g \<noteq> []\<close> \<open>list_all P g\<close> \<open>post = [] \<or> \<not> P (hd post)\<close>
  show ?case
  proof (cases pre)
    case Nil
    with "2.prems"(1) have c: "c = t" and cs: "cs = g @ post" by simp_all
    have "takeWhile P cs = g" unfolding cs using g(2,3) by (rule takeWhile_run)
    with c g(1) show ?thesis by simp
  next
    case (Cons p pre')
    with "2.prems"(1) have cs: "cs = pre' @ t # g @ post" by simp
    show ?thesis
    proof (cases "c = t \<and> takeWhile P cs \<noteq> []")
      case True
      from \<open>\<not> P t\<close> have "\<exists>q. dropWhile P (pre' @ t # g @ post) = q @ t # g @ post"
        by (rule dropWhile_tag)
      then obtain pre'' where "dropWhile P cs = pre'' @ t # g @ post"
        unfolding cs by blast
      with "2.IH"(1) True "2.prems"(2) g have "g \<in> set (findall_tagged t P (dropWhile P cs))"
        by blast
      with True show ?thesis by simp
    next
      case False
      with "2.IH"(2) cs "2.prems"(2) g have "g \<in> set (findall_tagged t P cs)" by blast
      with False show ?thesis by auto
    qed
  qed
qed

lemma set_findall_tagged:
  assumes "\<not> P t"
  shows "set (findall_tagged t P s) = {g. tagged_run t P s g}"
proof (intro set_eqI iffI)
  fix g assume "g \<in> set (findall_tagged t P s)"
  then show "g \<in> {g. tagged_run t P s g}" by (simp add: findall_tagged_sound)
next
  fix g assume "g \<in> {g. tagged_run t P s g}"
  then obtain pre post where "s = pre @ t # g @ post" "g \<noteq> []" "list_all P g" "post = [] \<or> \<not> P (hd post)"
    unfolding tagged_run_def by blast
  with assms show "g \<in> set (findall_tagged t P s)"
    by (simp add: findall_tagged_complete_aux)
qed

lemma hash_not_word: "\<not> word_char ualnum (of_char CHR ''#'')"
  by (simp add: word_char_def)

lemma at_not_handle: "\<not> handle_char (of_char CHR ''@'')"
  by (simp add: handle_char_def)

lemma sorted_set_list:
  "set (sorted_list_of_set (set xs)) = set xs" "sorted_wrt (<) (sorted_list_of_set (set xs))"
  by (simp_all add: strict_sorted_iff)

lemma PROFILE_RE_match_None: "PROFILE_RE_match s = None \<longleftrightarrow> (\<nexists>h. is_profile_url s h)"
  using PROFILE_RE_match_iff [of s] by (metis option.distinct(1) option.exhaust)

lemma extract_hashtags_str:
  "extract_hashtags ualnum (PStr s) =
     Inr (sorted_list_of_set (set (findall_tagged (of_char CHR ''#'') (word_char ualnum) s)))"
  by (cases s) (simp_all add: extract_hashtags_def)

lemma extract_mentions_str:
  "extract_mentions (PStr s) =
     Inr (sorted_list_of_set (set (findall_tagged (of_char CHR ''@'') handle_char s)))"
  by (cases s) (simp_all add: extract_mentions_def)

section \<open>Identifier Parser: the claims\<close>

text \<open>
  Claim C5, as the code has it. When the input, stripped of surrounding whitespace, is a
  profile URL with handle \<open>h\<close>, \<open>parse_username\<close> returns \<open>h\<close>. For every other input it
  returns the stripped input without its leading \<open>@\<close> signs, all of them and not one
  only: \<open>@@name\<close> becomes \<open>name\<close>. The rest is returned as it is, also when it is empty,
  and nothing is raised: the function is total.
\<close>

theorem parse_username_spec:
  "(is_profile_url (strip v) h \<longrightarrow> parse_username v = h) \<and>
   ((\<nexists>h. is_profile_url (strip v) h) \<longrightarrow>
      parse_username v = dropWhile (\<lambda>c. c = of_char CHR ''@'') (strip v)) \<and>
   parse_username (cps ''@@name'') = cps ''name''"
proof (intro conjI impI)
  assume "is_profile_url (strip v) h"
  then have "PROFILE_RE_match (strip v) = Some h" by (rule PROFILE_RE_match_complete)
  then show "parse_username v = h" by (simp add: parse_username_def)
next
  assume "\<nexists>h. is_profile_url (strip v) h"
  then have "PROFILE_RE_match (strip v) = None" by (simp add: PROFILE_RE_match_None)
  then show "parse_username v = dropWhile (\<lambda>c. c = of_char CHR ''@'') (strip v)"
    by (simp add: parse_username_def lstrip_def)
next
  show "parse_username (cps ''@@name'') = cps ''name''"
    by (simp add: parse_username_def PROFILE_RE_match_def profile_prefix_def strip_def lstrip_def
        rstrip_def cps_def lit_def opt_def then_re_def greedy_plus_def is_space_def handle_char_def)
qed

text \<open>The theorem of C5 at a profile URL and at a handle written with \<open>@\<close>.\<close>

theorem parse_username_spec_witness:
  "is_profile_url (strip (cps ''www.instagram.com/carol/'')) (cps ''carol'') \<and>
   parse_username (cps ''www.instagram.com/carol/'') = cps ''carol'' \<and>
   (\<nexists>h. is_profile_url (strip (cps '' @dave '')) h) \<and>
   parse_username (cps '' @dave '') = dropWhile (\<lambda>c. c = of_char CHR ''@'') (strip (cps '' @dave '')) \<and>
   dropWhile (\<lambda>c. c = of_char CHR ''@'') (strip (cps '' @dave '')) = cps ''dave''"
proof -
  have m: "PROFILE_RE_match (strip (cps ''www.instagram.com/carol/'')) = Some (cps ''carol'')"
    by (simp add: PROFILE_RE_match_def profile_prefix_def strip_def lstrip_def
        rstrip_def cps_def lit_def opt_def then_re_def greedy_plus_def is_space_def handle_char_def)
  have n: "PROFILE_RE_match (strip (cps '' @dave '')) = None"
    by (simp add: PROFILE_RE_match_def profile_prefix_def strip_def lstrip_def
        rstrip_def cps_def lit_def opt_def then_re_def greedy_plus_def is_space_def handle_char_def)
  have a: "is_profile_url (strip (cps ''www.instagram.com/carol/'')) (cps ''carol'')"
    using m by (simp add: PROFILE_RE_match_iff)
  have b: "\<nexists>h. is_profile_url (strip (cps '' @dave '')) h"
    using n by (simp add: PROFILE_RE_match_None)
  have c: "dropWhile (\<lambda>c. c = of_char CHR ''@'') (strip (cps '' @dave '')) = cps ''dave''"
    by (simp add: strip_def lstrip_def rstrip_def cps_def is_space_def)
  from parse_username_spec [of "cps ''www.instagram.com/carol/''" "cps ''carol''"] a
  have "parse_username (cps ''www.instagram.com/carol/'') = cps ''carol''" by blast
  moreover from parse_username_spec [of "cps '' @dave ''"] b
  have "parse_username (cps '' @dave '') = dropWhile (\<lambda>c. c = of_char CHR ''@'') (strip (cps '' @dave ''))"
    by blast
  ultimately show ?thesis using a b c by blast
qed

text \<open>
  Claim C5 as stated fails: \<open>@@name\<close> is not a profile URL and has no whitespace around
  it, and the result is \<open>name\<close>, not \<open>@name\<close>.
\<close>

theorem parse_username_single_at_counterexample:
  "PROFILE_RE_match (strip (cps ''@@name'')) = None \<and>
   strip (cps ''@@name'') = cps ''@@name'' \<and>
   parse_username (cps ''@@name'') = cps ''name'' \<and>
   parse_username (cps ''@@name'') \<noteq> cps ''@name''"
  by (simp add: parse_username_def PROFILE_RE_match_def profile_prefix_def strip_def lstrip_def
        rstrip_def cps_def lit_def opt_def then_re_def greedy_plus_def is_space_def handle_char_def)

text \<open>
  Claim C10. The pattern is matched at the start of the stripped input only. When that
  begins with an optional \<open>http://\<close> or \<open>https://\<close>, an optional \<open>www.\<close>,
  \<open>instagram.com/\<close> and a non-empty run \<open>h\<close> of letters, digits, \<open>_\<close> and \<open>.\<close> (the whole
  run: what follows it does not continue it), \<open>parse_username\<close> returns \<open>h\<close>, whatever
  the text \<open>rest\<close> after the run is. So the post URL
  \<open>https://www.instagram.com/alice/p/XYZ/\<close> gives \<open>alice\<close>.
\<close>

theorem parse_username_ignores_trailing:
  "(scheme \<in> {[], cps ''http://'', cps ''https://''} \<and> www \<in> {[], cps ''www.''} \<and>
    strip v = scheme @ www @ cps ''instagram.com/'' @ h @ rest \<and>
    h \<noteq> [] \<and> list_all handle_char h \<and> (rest = [] \<or> \<not> handle_char (hd rest))
    \<longrightarrow> parse_username v = h) \<and>
   parse_username (cps ''https://www.instagram.com/alice/p/XYZ/'') = cps ''alice''"
proof (intro conjI impI)
  assume a: "scheme \<in> {[], cps ''http://'', cps ''https://''} \<and> www \<in> {[], cps ''www.''} \<and>
    strip v = scheme @ www @ cps ''instagram.com/'' @ h @ rest \<and>
    h \<noteq> [] \<and> list_all handle_char h \<and> (rest = [] \<or> \<not> handle_char (hd rest))"
  then have "is_profile_url (strip v) h" unfolding is_profile_url_def by blast
  then have "PROFILE_RE_match (strip v) = Some h" by (rule PROFILE_RE_match_complete)
  then show "parse_username v = h" by (simp add: parse_username_def)
next
  show "parse_username (cps ''https://www.instagram.com/alice/p/XYZ/'') = cps ''alice''"
    by (simp add: parse_username_def PROFILE_RE_match_def profile_prefix_def strip_def lstrip_def
        rstrip_def cps_def lit_def opt_def then_re_def greedy_plus_def is_space_def handle_char_def)
qed

text \<open>The theorem of C10 at a URL with a query string after the handle.\<close>

theorem parse_username_ignores_trailing_witness:
  "parse_username (cps '' http://instagram.com/bob.b_9?hl=en'') = cps ''bob.b_9''"
proof -
  have s: "strip (cps '' http://instagram.com/bob.b_9?hl=en'') = cps ''http://'' @ [] @ cps ''instagram.com/'' @ cps ''bob.b_9'' @ cps ''?hl=en''"
    by (simp add: strip_def lstrip_def rstrip_def cps_def is_space_def)
  have h: "cps ''bob.b_9'' \<noteq> []" "list_all handle_char (cps ''bob.b_9'')" "\<not> handle_char (hd (cps ''?hl=en''))"
    by (simp_all add: cps_def handle_char_def)
  from parse_username_ignores_trailing [of "cps ''http://''" "[]" "cps '' http://instagram.com/bob.b_9?hl=en''" "cps ''bob.b_9''" "cps ''?hl=en''"]
    s h show ?thesis by blast
qed

section \<open>Text Entity Extractor: the claims\<close>

text \<open>
  Claim C8, as the code has it. \<open>extract_hashtags\<close> does not fold case: on
  \<open>#Foo #foo #bar\<close> it returns the three tags \<open>Foo\<close>, \<open>bar\<close>, \<open>foo\<close>, the capital letter
  before the small ones, as the order of the code points has it.
\<close>

theorem extract_hashtags_case_sensitive:
  "extract_hashtags ualnum (PStr (cps ''#Foo #foo #bar'')) = Inr [cps ''Foo'', cps ''bar'', cps ''foo'']"
  by (simp add: extract_hashtags_str sorted_list_of_set_sort_remdups cps_def word_char_def)

text \<open>Claim C8 as stated fails: the result is not the two tags \<open>bar\<close>, \<open>foo\<close>.\<close>

theorem extract_hashtags_Foo_counterexample:
  "extract_hashtags ualnum0 (PStr (cps ''#Foo #foo #bar'')) = Inr [cps ''Foo'', cps ''bar'', cps ''foo''] \<and>
   extract_hashtags ualnum0 (PStr (cps ''#Foo #foo #bar'')) \<noteq> Inr [cps ''bar'', cps ''foo'']"
  by (simp add: extract_hashtags_str sorted_list_of_set_sort_remdups cps_def word_char_def)

text \<open>
  Claim C9. On a text \<open>s\<close>, \<open>extract_hashtags\<close> returns a list whose elements are exactly
  the runs of word characters that follow a \<open>#\<close> in \<open>s\<close>, without the \<open>#\<close>, and
  \<open>extract_mentions\<close> a list whose elements are exactly the runs of letters, digits, \<open>_\<close>
  and \<open>.\<close> that follow an \<open>@\<close>. Each list is strictly ascending in the lexicographic order
  of the code points, so it is sorted and has no element twice. On \<open>None\<close> and on the
  empty text both functions return the empty list.
\<close>

theorem extract_entities_spec:
  "(\<exists>r. extract_hashtags ualnum (PStr s) = Inr r \<and>
        set r = {g. tagged_run (of_char CHR ''#'') (word_char ualnum) s g} \<and> sorted_wrt (<) r) \<and>
   (\<exists>r. extract_mentions (PStr s) = Inr r \<and>
        set r = {g. tagged_run (of_char CHR ''@'') handle_char s g} \<and> sorted_wrt (<) r) \<and>
   extract_hashtags ualnum PNone = Inr [] \<and> extract_mentions PNone = Inr [] \<and>
   extract_hashtags ualnum (PStr []) = Inr [] \<and> extract_mentions (PStr []) = Inr []"
proof (intro conjI)
  show "\<exists>r. extract_hashtags ualnum (PStr s) = Inr r \<and>
        set r = {g. tagged_run (of_char CHR ''#'') (word_char ualnum) s g} \<and> sorted_wrt (<) r"
    unfolding extract_hashtags_str
    using set_findall_tagged [of "word_char ualnum" "of_char CHR ''#''" s, OF hash_not_word] sorted_set_list [of "findall_tagged (of_char CHR ''#'') (word_char ualnum) s"]
    by blast
  show "\<exists>r. extract_mentions (PStr s) = Inr r \<and>
        set r = {g. tagged_run (of_char CHR ''@'') handle_char s g} \<and> sorted_wrt (<) r"
    unfolding extract_mentions_str
    using set_findall_tagged [of handle_char "of_char CHR ''@''" s, OF at_not_handle] sorted_set_list [of "findall_tagged (of_char CHR ''@'') handle_char s"]
    by blast
qed (simp_all add: extract_hashtags_def extract_mentions_def)

text \<open>The theorem of C9 at a text with two hashtags.\<close>

theorem extract_entities_spec_witness:
  "tagged_run (of_char CHR ''#'') (word_char ualnum0) (cps ''x #b, #a!'') (cps ''a'') \<and>
   (\<exists>r. extract_hashtags ualnum0 (PStr (cps ''x #b, #a!'')) = Inr r \<and> cps ''a'' \<in> set r \<and> sorted_wrt (<) r) \<and>
   extract_hashtags ualnum0 (PStr (cps ''x #b, #a!'')) = Inr [cps ''a'', cps ''b'']"
proof (intro conjI)
  have "cps ''x #b, #a!'' = cps ''x #b, '' @ of_char CHR ''#'' # cps ''a'' @ cps ''!''"
    "cps ''a'' \<noteq> []" "list_all (word_char ualnum0) (cps ''a'')" "\<not> word_char ualnum0 (hd (cps ''!''))"
    by (simp_all add: cps_def word_char_def)
  then show t: "tagged_run (of_char CHR ''#'') (word_char ualnum0) (cps ''x #b, #a!'') (cps ''a'')"
    unfolding tagged_run_def by blast
  from extract_entities_spec [of ualnum0 "cps ''x #b, #a!''"] t
  show "\<exists>r. extract_hashtags ualnum0 (PStr (cps ''x #b, #a!'')) = Inr r \<and> cps ''a'' \<in> set r \<and> sorted_wrt (<) r"
    by blast
  show "extract_hashtags ualnum0 (PStr (cps ''x #b, #a!'')) = Inr [cps ''a'', cps ''b'']"
    by (simp add: extract_hashtags_str sorted_list_of_set_sort_remdups cps_def word_char_def)
qed

section \<open>Row Normalizer: the claims\<close>

lemma isoformat_step:
  "(if hasattr_isoformat t then call_isoformat t else Inr t) = Inl e \<longleftrightarrow>
     e = TypeError \<and> hasattr_isoformat t \<and> \<not> is_datetime t"
  by (cases t; cases e) (auto simp: is_datetime_def)

lemma extract_hashtags_Inl:
  "extract_hashtags ualnum c = Inl e \<longleftrightarrow> e = TypeError \<and> truthy c \<and> \<not> is_str c"
  by (cases c; cases e) (auto simp: extract_hashtags_def is_str_def)

lemma extract_mentions_Inl:
  "extract_mentions c = Inl e \<longleftrightarrow> e = TypeError \<and> truthy c \<and> \<not> is_str c"
  by (cases c; cases e) (auto simp: extract_mentions_def is_str_def)

lemma media_to_row_Inl:
  "media_to_row ualnum fmt m = Inl e \<longleftrightarrow> e = TypeError \<and> \<not> row_defined m"
proof (cases "if hasattr_isoformat (getattr m ''taken_at'') then call_isoformat (getattr m ''taken_at'')
              else Inr (getattr m ''taken_at'')")
  case (Inl e1)
  then have "media_to_row ualnum fmt m = Inl e1"
    by (simp add: media_to_row_def Let_def split del: if_split)
  moreover from Inl have "e1 = TypeError" "\<not> row_defined m"
    by (simp_all add: isoformat_step row_defined_def)
  ultimately show ?thesis by auto
next
  case (Inr t)
  then have t: "hasattr_isoformat (getattr m ''taken_at'') \<longrightarrow> is_datetime (getattr m ''taken_at'')"
    using isoformat_step [of "getattr m ''taken_at''" TypeError] by auto
  show ?thesis
  proof (cases "extract_hashtags ualnum (getattr m ''caption_text'')")
    case (Inl e1)
    with Inr have "media_to_row ualnum fmt m = Inl e1"
      by (simp add: media_to_row_def Let_def split del: if_split)
    moreover from Inl have "e1 = TypeError" "\<not> row_defined m"
      by (simp_all add: extract_hashtags_Inl row_defined_def)
    ultimately show ?thesis by auto
  next
    case h: (Inr hs)
    show ?thesis
    proof (cases "extract_mentions (getattr m ''caption_text'')")
      case (Inl e1)
      with Inr h have "media_to_row ualnum fmt m = Inl e1"
        by (simp add: media_to_row_def Let_def split del: if_split)
      moreover from Inl have "e1 = TypeError" "\<not> row_defined m"
        by (simp_all add: extract_mentions_Inl row_defined_def)
      ultimately show ?thesis by auto
    next
      case ms: (Inr ms)
      with Inr h have "\<exists>d. media_to_row ualnum fmt m = Inr d"
        by (simp add: media_to_row_def Let_def split del: if_split)
      moreover have "truthy (getattr m ''caption_text'') \<longrightarrow> is_str (getattr m ''caption_text'')"
        using extract_mentions_Inl [of "getattr m ''caption_text''" TypeError] ms by auto
      with t have "row_defined m" by (simp add: row_defined_def)
      ultimately show ?thesis by auto
    qed
  qed
qed


lemma media_to_row_defined:
  "row_defined m \<Longrightarrow> \<exists>d. media_to_row ualnum fmt m = Inr d"
  by (cases "media_to_row ualnum fmt m") (simp_all add: media_to_row_Inl)

lemma media_to_row_fields:
  assumes "media_to_row ualnum fmt m = Inr d"
  shows "map fst d = ROW_FIELDS"
    and "map_of d ''view_count'' = Some (py_or (getattr m ''view_count'') (getattr m ''play_count''))"
    and "map_of d ''carousel_count'' =
           Some (case getattr m ''resources'' of
                   PList xs \<Rightarrow> if xs \<noteq> [] then PInt (int (length xs)) else PNone
                 | _ \<Rightarrow> PNone)"
proof -
  obtain t where t: "(if hasattr_isoformat (getattr m ''taken_at'') then call_isoformat (getattr m ''taken_at'')
              else Inr (getattr m ''taken_at'')) = Inr t"
    using assms by (cases "if hasattr_isoformat (getattr m ''taken_at'') then call_isoformat (getattr m ''taken_at'')
              else Inr (getattr m ''taken_at'')") (simp_all add: media_to_row_def Let_def split del: if_split)
  obtain hs where hs: "extract_hashtags ualnum (getattr m ''caption_text'') = Inr hs"
    using assms t by (cases "extract_hashtags ualnum (getattr m ''caption_text'')")
      (simp_all add: media_to_row_def Let_def split del: if_split)
  obtain ms where ms: "extract_mentions (getattr m ''caption_text'') = Inr ms"
    using assms t hs by (cases "extract_mentions (getattr m ''caption_text'')")
      (simp_all add: media_to_row_def Let_def split del: if_split)
  note d = assms [unfolded media_to_row_def Let_def t hs ms sum.case, simplified, symmetric]
  show "map fst d = ROW_FIELDS"
    unfolding d by (simp add: ROW_FIELDS_def)
  show "map_of d ''view_count'' = Some (py_or (getattr m ''view_count'') (getattr m ''play_count''))"
    unfolding d by simp
  show "map_of d ''carousel_count'' =
           Some (case getattr m ''resources'' of
                   PList xs \<Rightarrow> if xs \<noteq> [] then PInt (int (length xs)) else PNone
                 | _ \<Rightarrow> PNone)"
    unfolding d by (cases "getattr m ''resources''") simp_all
qed

text \<open>
  Claim C4, as the code has it. The Row Normalizer returns a row for exactly the post
  objects whose \<open>caption_text\<close>, when it is not empty or null, is a text, and whose
  \<open>taken_at\<close>, when it has an attribute \<open>isoformat\<close>, is a date-time object; for every
  other post object it raises \<open>TypeError\<close>. Every row it returns has the same keys, those
  of \<open>ROW_FIELDS\<close> in this order, whatever attributes the object has. A post object with
  \<open>id\<close> and \<open>pk\<close> only gives the row with these two values, the empty text for
  \<open>hashtags\<close> and \<open>mentions\<close>, and null in every other field.
\<close>

theorem media_to_row_rectangular:
  "(row_defined m \<longrightarrow> (\<exists>d. media_to_row ualnum fmt m = Inr d \<and> map fst d = ROW_FIELDS)) \<and>
   (\<not> row_defined m \<longrightarrow> media_to_row ualnum fmt m = Inl TypeError) \<and>
   media_to_row ualnum fmt (PObj [(''id'', i), (''pk'', k)]) =
     Inr [(''id'', i), (''pk'', k), (''shortcode'', PNone), (''url'', PNone), (''taken_at'', PNone),
          (''media_type'', PNone), (''product_type'', PNone), (''like_count'', PNone),
          (''comment_count'', PNone), (''view_count'', PNone), (''play_count'', PNone),
          (''caption'', PNone), (''hashtags'', PStr []), (''mentions'', PStr []),
          (''duration_sec'', PNone), (''width'', PNone), (''height'', PNone), (''location'', PNone),
          (''is_paid_partnership'', PNone), (''is_comments_disabled'', PNone),
          (''thumbnail_url'', PNone), (''video_url'', PNone), (''carousel_count'', PNone)]"
proof (intro conjI impI)
  assume "row_defined m"
  then obtain d where d: "media_to_row ualnum fmt m = Inr d"
    using media_to_row_defined by blast
  then have "map fst d = ROW_FIELDS" by (rule media_to_row_fields)
  with d show "\<exists>d. media_to_row ualnum fmt m = Inr d \<and> map fst d = ROW_FIELDS" by blast
next
  assume "\<not> row_defined m"
  then show "media_to_row ualnum fmt m = Inl TypeError" by (simp add: media_to_row_Inl)
next
  show "media_to_row ualnum fmt (PObj [(''id'', i), (''pk'', k)]) =
     Inr [(''id'', i), (''pk'', k), (''shortcode'', PNone), (''url'', PNone), (''taken_at'', PNone),
          (''media_type'', PNone), (''product_type'', PNone), (''like_count'', PNone),
          (''comment_count'', PNone), (''view_count'', PNone), (''play_count'', PNone),
          (''caption'', PNone), (''hashtags'', PStr []), (''mentions'', PStr []),
          (''duration_sec'', PNone), (''width'', PNone), (''height'', PNone), (''location'', PNone),
          (''is_paid_partnership'', PNone), (''is_comments_disabled'', PNone),
          (''thumbnail_url'', PNone), (''video_url'', PNone), (''carousel_count'', PNone)]"
    by (simp add: media_to_row_def Let_def extract_hashtags_def extract_mentions_def py_or_def)
qed

text \<open>The theorem of C4 at a post with a caption and a date.\<close>

theorem media_to_row_rectangular_witness:
  "row_defined (PObj [(''pk'', PInt 7), (''caption_text'', PStr (cps ''hi #a'')), (''taken_at'', PDateTime (cps ''2024-01-02T03:04:05''))]) \<and>
   (\<exists>d. media_to_row ualnum0 fmt0 (PObj [(''pk'', PInt 7), (''caption_text'', PStr (cps ''hi #a'')), (''taken_at'', PDateTime (cps ''2024-01-02T03:04:05''))]) = Inr d \<and> map fst d = ROW_FIELDS)"
proof -
  have r: "row_defined (PObj [(''pk'', PInt 7), (''caption_text'', PStr (cps ''hi #a'')), (''taken_at'', PDateTime (cps ''2024-01-02T03:04:05''))])"
    by (simp add: row_defined_def is_datetime_def is_str_def)
  with media_to_row_rectangular [of "PObj [(''pk'', PInt 7), (''caption_text'', PStr (cps ''hi #a'')), (''taken_at'', PDateTime (cps ''2024-01-02T03:04:05''))]" ualnum0 fmt0]
  show ?thesis by blast
qed

text \<open>
  Claim C4 as stated fails: a post object whose \<open>caption_text\<close> is the number 5 has no
  row, since \<open>re.findall\<close> raises \<open>TypeError\<close> on it; nor has one whose \<open>taken_at\<close> has an
  attribute \<open>isoformat\<close> that cannot be called.
\<close>

theorem media_to_row_raises_counterexample:
  "media_to_row ualnum0 fmt0 (PObj [(''id'', PInt 1), (''pk'', PInt 1), (''caption_text'', PInt 5)]) = Inl TypeError \<and>
   media_to_row ualnum0 fmt0 (PObj [(''id'', PInt 1), (''pk'', PInt 1), (''taken_at'', PObj [(''isoformat'', PNone)])]) = Inl TypeError"
  by (simp add: media_to_row_def Let_def extract_hashtags_def extract_mentions_def)

text \<open>
  Claim C6, as the code has it. In the row of a post object, \<open>view_count\<close> is the
  attribute \<open>view_count\<close> of the object when that is truthy (present, not null and not 0),
  and the attribute \<open>play_count\<close> (null when absent) otherwise: \<open>x or y\<close> falls back for
  every falsy \<open>x\<close>, so also for a view count of 0. An absent attribute reads as null, which
  is falsy.
\<close>

theorem view_count_fallback:
  "(row_defined m \<and> truthy (getattr m ''view_count'') \<longrightarrow>
      row_field (media_to_row ualnum fmt m) ''view_count'' = Some (getattr m ''view_count'')) \<and>
   (row_defined m \<and> \<not> truthy (getattr m ''view_count'') \<longrightarrow>
      row_field (media_to_row ualnum fmt m) ''view_count'' = Some (getattr m ''play_count'')) \<and>
   (map_of attrs ''view_count'' = None \<longrightarrow> \<not> truthy (getattr (PObj attrs) ''view_count''))"
proof (intro conjI impI)
  assume a: "row_defined m \<and> truthy (getattr m ''view_count'')"
  then obtain d where d: "media_to_row ualnum fmt m = Inr d"
    using media_to_row_defined by blast
  from media_to_row_fields(2) [OF d] a
  show "row_field (media_to_row ualnum fmt m) ''view_count'' = Some (getattr m ''view_count'')"
    by (simp add: row_field_def d py_or_def)
next
  assume a: "row_defined m \<and> \<not> truthy (getattr m ''view_count'')"
  then obtain d where d: "media_to_row ualnum fmt m = Inr d"
    using media_to_row_defined by blast
  from media_to_row_fields(2) [OF d] a
  show "row_field (media_to_row ualnum fmt m) ''view_count'' = Some (getattr m ''play_count'')"
    by (simp add: row_field_def d py_or_def)
next
  assume "map_of attrs ''view_count'' = None"
  then show "\<not> truthy (getattr (PObj attrs) ''view_count'')" by simp
qed

text \<open>The theorem of C6 at a post with both counters and at a post with plays only.\<close>

theorem view_count_fallback_witness:
  "row_defined (PObj [(''view_count'', PInt 12), (''play_count'', PInt 7)]) \<and>
   row_field (media_to_row ualnum0 fmt0 (PObj [(''view_count'', PInt 12), (''play_count'', PInt 7)])) ''view_count'' = Some (PInt 12) \<and>
   row_defined (PObj [(''play_count'', PInt 7)]) \<and>
   row_field (media_to_row ualnum0 fmt0 (PObj [(''play_count'', PInt 7)])) ''view_count'' = Some (PInt 7)"
proof -
  have a: "row_defined (PObj [(''view_count'', PInt 12), (''play_count'', PInt 7)])"
    "truthy (getattr (PObj [(''view_count'', PInt 12), (''play_count'', PInt 7)]) ''view_count'')"
    "getattr (PObj [(''view_count'', PInt 12), (''play_count'', PInt 7)]) ''view_count'' = PInt 12"
    by (simp_all add: row_defined_def)
  have b: "row_defined (PObj [(''play_count'', PInt 7)])"
    "\<not> truthy (getattr (PObj [(''play_count'', PInt 7)]) ''view_count'')"
    "getattr (PObj [(''play_count'', PInt 7)]) ''play_count'' = PInt 7"
    by (simp_all add: row_defined_def)
  from view_count_fallback [of "PObj [(''view_count'', PInt 12), (''play_count'', PInt 7)]" ualnum0 fmt0] a
  have "row_field (media_to_row ualnum0 fmt0 (PObj [(''view_count'', PInt 12), (''play_count'', PInt 7)])) ''view_count'' = Some (PInt 12)"
    by simp
  moreover from view_count_fallback [of "PObj [(''play_count'', PInt 7)]" ualnum0 fmt0] b
  have "row_field (media_to_row ualnum0 fmt0 (PObj [(''play_count'', PInt 7)])) ''view_count'' = Some (PInt 7)"
    by simp
  ultimately show ?thesis using a(1) b(1) by blast
qed

text \<open>
  Claim C6 as stated fails: with a view count of 0 and a play count of 7 the row has 7,
  and with a view count of 0 and no play count it has null.
\<close>

theorem view_count_zero_counterexample:
  "getattr (PObj [(''view_count'', PInt 0), (''play_count'', PInt 7)]) ''view_count'' = PInt 0 \<and>
   row_field (media_to_row ualnum0 fmt0 (PObj [(''view_count'', PInt 0), (''play_count'', PInt 7)])) ''view_count'' = Some (PInt 7) \<and>
   row_field (media_to_row ualnum0 fmt0 (PObj [(''view_count'', PInt 0)])) ''view_count'' = Some PNone"
  by (simp add: row_field_def media_to_row_def Let_def extract_hashtags_def extract_mentions_def py_or_def)

text \<open>
  Claim C7, as the code has it. In the row of a post object, \<open>carousel_count\<close> is the
  length of the attribute \<open>resources\<close> when that is a list with at least one element, and
  null when it is the empty list, is not a list, or is absent (an absent attribute reads
  as null, which is not a list).
\<close>

theorem carousel_count_nonempty_list:
  "(row_defined m \<and> getattr m ''resources'' = PList xs \<and> xs \<noteq> [] \<longrightarrow>
      row_field (media_to_row ualnum fmt m) ''carousel_count'' = Some (PInt (int (length xs)))) \<and>
   (row_defined m \<and> (getattr m ''resources'' = PList [] \<or> \<not> is_list (getattr m ''resources'')) \<longrightarrow>
      row_field (media_to_row ualnum fmt m) ''carousel_count'' = Some PNone) \<and>
   (map_of attrs ''resources'' = None \<longrightarrow> \<not> is_list (getattr (PObj attrs) ''resources''))"
proof (intro conjI impI)
  assume a: "row_defined m \<and> getattr m ''resources'' = PList xs \<and> xs \<noteq> []"
  then obtain d where d: "media_to_row ualnum fmt m = Inr d"
    using media_to_row_defined by blast
  from media_to_row_fields(3) [OF d] a
  show "row_field (media_to_row ualnum fmt m) ''carousel_count'' = Some (PInt (int (length xs)))"
    by (simp add: row_field_def d)
next
  assume a: "row_defined m \<and> (getattr m ''resources'' = PList [] \<or> \<not> is_list (getattr m ''resources''))"
  then obtain d where d: "media_to_row ualnum fmt m = Inr d"
    using media_to_row_defined by blast
  from media_to_row_fields(3) [OF d] a
  show "row_field (media_to_row ualnum fmt m) ''carousel_count'' = Some PNone"
    by (cases "getattr m ''resources''") (auto simp add: row_field_def d is_list_def)
next
  assume "map_of attrs ''resources'' = None"
  then show "\<not> is_list (getattr (PObj attrs) ''resources'')" by (simp add: is_list_def)
qed

text \<open>The theorem of C7 at a list of three resources and at a text.\<close>

theorem carousel_count_nonempty_list_witness:
  "row_defined (PObj [(''resources'', PList [PNone, PNone, PNone])]) \<and>
   row_field (media_to_row ualnum0 fmt0 (PObj [(''resources'', PList [PNone, PNone, PNone])])) ''carousel_count'' = Some (PInt 3) \<and>
   row_defined (PObj [(''resources'', PStr (cps ''abc''))]) \<and>
   row_field (media_to_row ualnum0 fmt0 (PObj [(''resources'', PStr (cps ''abc''))])) ''carousel_count'' = Some PNone"
proof -
  have a: "row_defined (PObj [(''resources'', PList [PNone, PNone, PNone])])"
    "getattr (PObj [(''resources'', PList [PNone, PNone, PNone])]) ''resources'' = PList [PNone, PNone, PNone]"
    by (simp_all add: row_defined_def)
  have b: "row_defined (PObj [(''resources'', PStr (cps ''abc''))])"
    "\<not> is_list (getattr (PObj [(''resources'', PStr (cps ''abc''))]) ''resources'')"
    by (simp_all add: row_defined_def is_list_def)
  from carousel_count_nonempty_list [of "PObj [(''resources'', PList [PNone, PNone, PNone])]" "[PNone, PNone, PNone]" ualnum0 fmt0] a
  have "row_field (media_to_row ualnum0 fmt0 (PObj [(''resources'', PList [PNone, PNone, PNone])])) ''carousel_count'' = Some (PInt 3)"
    by simp
  moreover from carousel_count_nonempty_list [of "PObj [(''resources'', PStr (cps ''abc''))]" _ ualnum0 fmt0] b
  have "row_field (media_to_row ualnum0 fmt0 (PObj [(''resources'', PStr (cps ''abc''))])) ''carousel_count'' = Some PNone"
    by simp
  ultimately show ?thesis using a(1) b(1) by blast
qed

text \<open>Claim C7 as stated fails: for the empty list the row has null, not 0.\<close>

theorem carousel_count_empty_list_counterexample:
  "getattr (PObj [(''resources'', PList [])]) ''resources'' = PList [] \<and>
   row_field (media_to_row ualnum0 fmt0 (PObj [(''resources'', PList [])])) ''carousel_count'' = Some PNone \<and>
   row_field (media_to_row ualnum0 fmt0 (PObj [(''resources'', PList [])])) ''carousel_count'' \<noteq> Some (PInt 0)"
  by (simp add: row_field_def media_to_row_def Let_def extract_hashtags_def extract_mentions_def py_or_def)

section \<open>Virality Calculator: the claims\<close>

lemma nrows_set_scalar: "nrows (set_scalar df c v) = nrows df"
  by (simp add: set_scalar_def)

lemma df_get_set_scalar:
  "df_get (set_scalar df c v) c' = (if c' = c then Some (replicate (nrows df) v) else df_get df c')"
  by (simp add: set_scalar_def df_get_def update_conv')

lemma nrows_set_numeric: "nrows (set_numeric df c a) = nrows df"
  by (cases a) (simp_all add: set_scalar_def)

lemma df_get_set_numeric:
  "df_get (set_numeric df c a) c' =
     (if c' = c then Some (map float_cell (broadcast (nrows df) a)) else df_get df c')"
  by (cases a) (simp_all add: set_scalar_def df_get_def update_conv')

lemma wf_df_column:
  assumes "wf_df df" "df_get df c = Some xs"
  shows "length xs = nrows df"
proof -
  from assms(2) have "(c, xs) \<in> set (columns df)"
    unfolding df_get_def by (rule map_of_SomeD)
  with assms(1) show ?thesis by (auto simp: wf_df_def list_all_iff)
qed

lemma wf_df_update:
  assumes "wf_df df" "length xs = nrows df"
  shows "wf_df (df\<lparr>columns := AList.update c xs (columns df)\<rparr>)"
proof -
  have "set (AList.update c xs al) \<subseteq> insert (c, xs) (set al)" for al :: "(string \<times> pyval list) list"
    by (induction al) auto
  with assms show ?thesis by (auto simp: wf_df_def list_all_iff)
qed

lemma wf_df_set_scalar: "wf_df df \<Longrightarrow> wf_df (set_scalar df c v)"
  unfolding set_scalar_def by (rule wf_df_update) simp_all

lemma wf_df_set_numeric:
  "wf_df df \<Longrightarrow> length (broadcast (nrows df) a) = nrows df \<Longrightarrow> wf_df (set_numeric df c a)"
  by (cases a) (simp_all add: wf_df_set_scalar wf_df_update)

lemma map_by_index: "length xs = n \<Longrightarrow> map g xs = map (\<lambda>i. g (xs ! i)) [0..<n]"
  by (auto simp: list_eq_iff_nth_eq)

lemma broadcast_to_numeric:
  assumes "wf_df df"
  shows "broadcast (nrows df) (to_numeric co (df_get df c)) =
           map (\<lambda>i. coerce_cell co (cell df c i)) [0..<nrows df]"
proof (cases "df_get df c")
  case None
  then show ?thesis by (simp add: to_numeric_def cell_def map_replicate_const)
next
  case (Some xs)
  with assms have "length xs = nrows df" by (rule wf_df_column)
  then have "map (coerce_cell co) xs = map (\<lambda>i. coerce_cell co (xs ! i)) [0..<nrows df]"
    by (rule map_by_index)
  with Some show ?thesis by (simp add: to_numeric_def cell_def)
qed

lemma broadcast_num_div:
  "broadcast n (num_div a f) = map (\<lambda>x. div_float x f) (broadcast n a)"
  by (cases a) simp_all

lemma broadcast_num_add:
  assumes "length (broadcast n a) = n" "length (broadcast n b) = n"
  shows "broadcast n (num_add a b) = map2 add_float (broadcast n a) (broadcast n b)"
proof (cases a)
  case sa: (Scalar x)
  show ?thesis
  proof (cases b)
    case (Scalar y)
    with sa show ?thesis by (simp add: zip_replicate map_replicate)
  next
    case (Series ys)
    with sa assms(2) show ?thesis by (simp add: zip_replicate1)
  qed
next
  case sa: (Series xs)
  show ?thesis
  proof (cases b)
    case (Scalar y)
    with sa assms(1) show ?thesis by (simp add: zip_replicate2)
  next
    case (Series ys)
    with sa show ?thesis by simp
  qed
qed

lemma map2_upt:
  "map2 g (map h [0..<n]) (map k [0..<n]) = map (\<lambda>i. g (h i) (k i)) [0..<n]"
  by (auto simp: list_eq_iff_nth_eq)

lemma compute_virality_nan:
  assumes "followers = None \<or> (\<exists>f. followers = Some f \<and> f \<le> 0)"
  shows "compute_virality co df followers =
     set_scalar (set_scalar (set_scalar (set_scalar (set_scalar df ''followers_at_scrape'' PNaN)
       ''views_per_follower'' PNaN) ''likes_per_follower'' PNaN) ''comments_per_follower'' PNaN)
       ''er_per_follower'' PNaN"
  using assms by (auto simp: compute_virality_def Let_def)

lemma compute_virality_pos:
  assumes "0 < f"
  shows "compute_virality co df (Some f) =
     set_numeric (set_numeric (set_numeric (set_numeric (set_scalar df ''followers_at_scrape'' (PInt f))
       ''views_per_follower'' (num_div (to_numeric co (df_get df ''view_count'')) f))
       ''likes_per_follower'' (num_div (to_numeric co (df_get df ''like_count'')) f))
       ''comments_per_follower'' (num_div (to_numeric co (df_get df ''comment_count'')) f))
       ''er_per_follower''
       (num_div (num_add (to_numeric co (df_get df ''like_count''))
                         (to_numeric co (df_get df ''comment_count''))) f)"
  using assms by (simp add: compute_virality_def Let_def df_get_set_scalar)

lemma length_broadcast_to_numeric:
  "wf_df df \<Longrightarrow> length (broadcast (nrows df) (to_numeric co (df_get df c))) = nrows df"
  by (simp add: broadcast_to_numeric)

lemma compute_virality_columns:
  assumes "0 < f" "wf_df df"
  shows "nrows (compute_virality co df (Some f)) = nrows df"
    and "df_get (compute_virality co df (Some f)) ''followers_at_scrape'' = Some (replicate (nrows df) (PInt f))"
    and "df_get (compute_virality co df (Some f)) ''views_per_follower'' =
           Some (map (\<lambda>i. float_cell (div_float (coerce_cell co (cell df ''view_count'' i)) f)) [0..<nrows df])"
    and "df_get (compute_virality co df (Some f)) ''likes_per_follower'' =
           Some (map (\<lambda>i. float_cell (div_float (coerce_cell co (cell df ''like_count'' i)) f)) [0..<nrows df])"
    and "df_get (compute_virality co df (Some f)) ''comments_per_follower'' =
           Some (map (\<lambda>i. float_cell (div_float (coerce_cell co (cell df ''comment_count'' i)) f)) [0..<nrows df])"
    and "df_get (compute_virality co df (Some f)) ''er_per_follower'' =
           Some (map (\<lambda>i. float_cell (div_float (add_float (coerce_cell co (cell df ''like_count'' i))
                                                              (coerce_cell co (cell df ''comment_count'' i))) f))
                   [0..<nrows df])"
proof -
  note e = compute_virality_pos [OF assms(1), of co df]
  note b = broadcast_to_numeric [OF assms(2)]
  show "nrows (compute_virality co df (Some f)) = nrows df"
    unfolding e by (simp add: nrows_set_numeric nrows_set_scalar)
  show "df_get (compute_virality co df (Some f)) ''followers_at_scrape'' = Some (replicate (nrows df) (PInt f))"
    unfolding e by (simp add: df_get_set_numeric df_get_set_scalar)
  show "df_get (compute_virality co df (Some f)) ''views_per_follower'' =
           Some (map (\<lambda>i. float_cell (div_float (coerce_cell co (cell df ''view_count'' i)) f)) [0..<nrows df])"
    unfolding e
    by (simp add: df_get_set_numeric nrows_set_numeric nrows_set_scalar broadcast_num_div b comp_def)
  show "df_get (compute_virality co df (Some f)) ''likes_per_follower'' =
           Some (map (\<lambda>i. float_cell (div_float (coerce_cell co (cell df ''like_count'' i)) f)) [0..<nrows df])"
    unfolding e
    by (simp add: df_get_set_numeric nrows_set_numeric nrows_set_scalar broadcast_num_div b comp_def)
  show "df_get (compute_virality co df (Some f)) ''comments_per_follower'' =
           Some (map (\<lambda>i. float_cell (div_float (coerce_cell co (cell df ''comment_count'' i)) f)) [0..<nrows df])"
    unfolding e
    by (simp add: df_get_set_numeric nrows_set_numeric nrows_set_scalar broadcast_num_div b comp_def)
  have a: "broadcast (nrows df) (num_add (to_numeric co (df_get df ''like_count''))
                         (to_numeric co (df_get df ''comment_count''))) =
           map (\<lambda>i. add_float (coerce_cell co (cell df ''like_count'' i))
                               (coerce_cell co (cell df ''comment_count'' i))) [0..<nrows df]"
    using assms(2)
    by (simp add: broadcast_num_add length_broadcast_to_numeric) (simp add: b map2_upt)
  show "df_get (compute_virality co df (Some f)) ''er_per_follower'' =
           Some (map (\<lambda>i. float_cell (div_float (add_float (coerce_cell co (cell df ''like_count'' i))
                                                              (coerce_cell co (cell df ''comment_count'' i))) f))
                   [0..<nrows df])"
    unfolding e
    by (simp add: df_get_set_numeric nrows_set_numeric nrows_set_scalar broadcast_num_div a comp_def)
qed


text \<open>
  Claim C1. When the follower count is null, zero or negative, the Virality Calculator
  returns a table with the same number of rows, in which each of the five columns
  \<open>followers_at_scrape\<close>, \<open>views_per_follower\<close>, \<open>likes_per_follower\<close>,
  \<open>comments_per_follower\<close> and \<open>er_per_follower\<close> holds the not-a-number marker in every
  row, and every other column is as it was. Nothing is raised: the function is total.
\<close>

theorem compute_virality_no_followers:
  "followers = None \<or> (\<exists>f. followers = Some f \<and> f \<le> 0) \<longrightarrow>
     nrows (compute_virality co df followers) = nrows df \<and>
     (\<forall>c \<in> set METRIC_COLUMNS.
        df_get (compute_virality co df followers) c = Some (replicate (nrows df) PNaN)) \<and>
     (c \<notin> set METRIC_COLUMNS \<longrightarrow> df_get (compute_virality co df followers) c = df_get df c)"
proof
  assume "followers = None \<or> (\<exists>f. followers = Some f \<and> f \<le> 0)"
  then have e: "compute_virality co df followers =
     set_scalar (set_scalar (set_scalar (set_scalar (set_scalar df ''followers_at_scrape'' PNaN)
       ''views_per_follower'' PNaN) ''likes_per_follower'' PNaN) ''comments_per_follower'' PNaN)
       ''er_per_follower'' PNaN"
    by (rule compute_virality_nan)
  show "nrows (compute_virality co df followers) = nrows df \<and>
     (\<forall>c \<in> set METRIC_COLUMNS.
        df_get (compute_virality co df followers) c = Some (replicate (nrows df) PNaN)) \<and>
     (c \<notin> set METRIC_COLUMNS \<longrightarrow> df_get (compute_virality co df followers) c = df_get df c)"
    unfolding e by (simp add: METRIC_COLUMNS_def nrows_set_scalar df_get_set_scalar)
qed

text \<open>The theorem of C1 at a table of five rows with a follower count of 0.\<close>

theorem compute_virality_no_followers_witness:
  "nrows (compute_virality co0
      \<lparr>nrows = 5, columns = [(''like_count'', [PInt 1, PInt 2, PInt 3, PInt 4, PInt 5])]\<rparr> (Some 0)) = 5 \<and>
   df_get (compute_virality co0
      \<lparr>nrows = 5, columns = [(''like_count'', [PInt 1, PInt 2, PInt 3, PInt 4, PInt 5])]\<rparr> (Some 0))
      ''er_per_follower'' = Some [PNaN, PNaN, PNaN, PNaN, PNaN] \<and>
   df_get (compute_virality co0
      \<lparr>nrows = 5, columns = [(''like_count'', [PInt 1, PInt 2, PInt 3, PInt 4, PInt 5])]\<rparr> (Some 0))
      ''followers_at_scrape'' = Some [PNaN, PNaN, PNaN, PNaN, PNaN] \<and>
   df_get (compute_virality co0
      \<lparr>nrows = 5, columns = [(''like_count'', [PInt 1, PInt 2, PInt 3, PInt 4, PInt 5])]\<rparr> (Some 0))
      ''like_count'' = Some [PInt 1, PInt 2, PInt 3, PInt 4, PInt 5]"
proof -
  have h: "Some (0::int) = None \<or> (\<exists>f. Some (0::int) = Some f \<and> f \<le> 0)" by simp
  have r: "replicate 5 PNaN = [PNaN, PNaN, PNaN, PNaN, PNaN]" by (simp add: numeral_eq_Suc)
  from compute_virality_no_followers [of "Some 0" co0
      "\<lparr>nrows = 5, columns = [(''like_count'', [PInt 1, PInt 2, PInt 3, PInt 4, PInt 5])]\<rparr>" "''like_count''"] h
  show ?thesis by (simp add: METRIC_COLUMNS_def r df_get_def)
qed



section \<open>Ranking/Export Assembler: the claims\<close>

text \<open>
  A stable sort of row numbers that come in ascending order leaves them ordered by their
  keys and, where the keys are the same, by the row numbers themselves.
\<close>

lemma insort_key_stable_sorted:
  fixes f :: "nat \<Rightarrow> 'k::linorder"
  assumes "sorted_wrt (\<lambda>a b. f a < f b \<or> f a = f b \<and> a < b) ys" "\<forall>y\<in>set ys. x < y"
  shows "sorted_wrt (\<lambda>a b. f a < f b \<or> f a = f b \<and> a < b) (insort_key f x ys)"
  using assms
proof (induction ys)
  case Nil
  then show ?case by simp
next
  case (Cons y ys)
  show ?case
  proof (cases "f x \<le> f y")
    case True
    have "f x < f z \<or> f x = f z \<and> x < z" if "z \<in> set (y # ys)" for z
    proof -
      from that Cons.prems(1) have "f y \<le> f z" by (auto simp: less_imp_le)
      with True have "f x \<le> f z" by simp
      moreover from that Cons.prems(2) have "x < z" by auto
      ultimately show ?thesis by (auto simp: le_less)
    qed
    with True Cons.prems(1) show ?thesis by simp
  next
    case False
    then have "f y < f x" by simp
    moreover from Cons have "sorted_wrt (\<lambda>a b. f a < f b \<or> f a = f b \<and> a < b) (insort_key f x ys)"
      by simp
    ultimately show ?thesis using False Cons.prems(1) by (auto simp: set_insort_key)
  qed
qed

lemma sort_key_stable_sorted:
  fixes f :: "nat \<Rightarrow> 'k::linorder"
  assumes "sorted_wrt (<) xs"
  shows "sorted_wrt (\<lambda>a b. f a < f b \<or> f a = f b \<and> a < b) (sort_key f xs)"
  using assms
proof (induction xs)
  case Nil
  then show ?case by simp
next
  case (Cons x xs)
  then have "sorted_wrt (\<lambda>a b. f a < f b \<or> f a = f b \<and> a < b) (sort_key f xs)"
    and "\<forall>y\<in>set (sort_key f xs). x < y" by simp_all
  then have "sorted_wrt (\<lambda>a b. f a < f b \<or> f a = f b \<and> a < b) (insort_key f x (sort_key f xs))"
    by (rule insort_key_stable_sorted)
  then show ?case by simp
qed

lemma lexsort_indexer_perm:
  "distinct (lexsort_indexer keys n)" "set (lexsort_indexer keys n) = {0..<n}"
  "length (lexsort_indexer keys n) = n"
  by (simp_all add: lexsort_indexer_def)

lemma lexsort_indexer_sorted:
  assumes "i < j" "j < n"
  shows "map (\<lambda>k. k ! (lexsort_indexer keys n ! i)) keys < map (\<lambda>k. k ! (lexsort_indexer keys n ! j)) keys \<or>
         map (\<lambda>k. k ! (lexsort_indexer keys n ! i)) keys = map (\<lambda>k. k ! (lexsort_indexer keys n ! j)) keys \<and>
         lexsort_indexer keys n ! i < lexsort_indexer keys n ! j"
proof -
  have "sorted_wrt (<) [0..<n]" by (simp add: strict_sorted_iff)
  then have "sorted_wrt (\<lambda>a b. map (\<lambda>k. k ! a) keys < map (\<lambda>k. k ! b) keys \<or>
                map (\<lambda>k. k ! a) keys = map (\<lambda>k. k ! b) keys \<and> a < b) (lexsort_indexer keys n)"
    unfolding lexsort_indexer_def by (rule sort_key_stable_sorted)
  with assms show ?thesis
    by (simp add: sorted_wrt_iff_nth_less lexsort_indexer_perm(3))
qed

lemma key_column_float: "key_column (map float_cell vs) = Inr vs"
  by (induction vs) (auto simp: key_cell_def float_cell_def split: option.splits)

lemma metric_float:
  "df_get d c = Some (map float_cell vs) \<Longrightarrow> i < length vs \<Longrightarrow> metric d c i = vs ! i"
  by (cases "vs ! i") (simp_all add: metric_def cell_def float_cell_def)

lemma sort_code_desc:
  "sort_code False x < sort_code False y \<longleftrightarrow> higher x y"
  "sort_code False x = sort_code False y \<longleftrightarrow> x = y"
  by (cases x; cases y; simp add: sort_code_def higher_def)+

lemma has_column_df_get: "has_column df c \<longleftrightarrow> df_get df c \<noteq> None"
  by (simp add: has_column_def df_get_def map_of_eq_None_iff)

lemma compute_virality_metric_columns:
  assumes "wf_df df"
  shows "\<exists>vs es. length vs = nrows df \<and> length es = nrows df \<and>
           nrows (compute_virality co df followers) = nrows df \<and>
           df_get (compute_virality co df followers) ''views_per_follower'' = Some (map float_cell vs) \<and>
           df_get (compute_virality co df followers) ''er_per_follower'' = Some (map float_cell es)"
proof (cases "followers = None \<or> (\<exists>f. followers = Some f \<and> f \<le> 0)")
  case True
  note e = compute_virality_nan [OF True, of co df]
  have "map float_cell (replicate (nrows df) None) = replicate (nrows df) PNaN"
    by (simp add: float_cell_def)
  then have "df_get (compute_virality co df followers) ''views_per_follower'' =
               Some (map float_cell (replicate (nrows df) None))"
    and "df_get (compute_virality co df followers) ''er_per_follower'' =
               Some (map float_cell (replicate (nrows df) None))"
    and "nrows (compute_virality co df followers) = nrows df"
    unfolding e by (simp_all add: df_get_set_scalar nrows_set_scalar)
  moreover have "length (replicate (nrows df) (None :: real option)) = nrows df" by simp
  ultimately show ?thesis by blast
next
  case False
  then obtain f where f: "followers = Some f" "0 < f" by (cases followers) auto
  let ?vs = "map (\<lambda>i. div_float (coerce_cell co (cell df ''view_count'' i)) f) [0..<nrows df]"
  let ?es = "map (\<lambda>i. div_float (add_float (coerce_cell co (cell df ''like_count'' i))
                                              (coerce_cell co (cell df ''comment_count'' i))) f) [0..<nrows df]"
  from compute_virality_columns(1,3,6) [OF f(2) assms, of co]
  have "nrows (compute_virality co df followers) = nrows df"
    and "df_get (compute_virality co df followers) ''views_per_follower'' = Some (map float_cell ?vs)"
    and "df_get (compute_virality co df followers) ''er_per_follower'' = Some (map float_cell ?es)"
    unfolding f(1) by (simp_all add: comp_def)
  moreover have "length ?vs = nrows df" "length ?es = nrows df" by simp_all
  ultimately show ?thesis by blast
qed

lemma rank_view_lexsort:
  assumes "df_get d ''views_per_follower'' = Some (map float_cell vs)"
    and "df_get d ''er_per_follower'' = Some (map float_cell es)"
  shows "rank_view nargsort d =
           take_rows (lexsort_indexer [map (sort_code False) vs, map (sort_code False) es] (nrows d)) d"
  using assms
  by (simp add: rank_view_def has_column_df_get sort_values_def key_column_float)

lemma rank_view_no_columns:
  assumes "\<not> has_column t ''views_per_follower''" "\<not> has_column t ''er_per_follower''"
  shows "rank_view nargsort t = t"
  using assms by (simp add: rank_view_def)

lemma ranks_before_codes:
  assumes "df_get d ''views_per_follower'' = Some (map float_cell vs)"
    and "df_get d ''er_per_follower'' = Some (map float_cell es)"
    and "a < length vs" "b < length vs" "length es = length vs"
    and "map (\<lambda>k. k ! a) [map (sort_code False) vs, map (sort_code False) es] <
           map (\<lambda>k. k ! b) [map (sort_code False) vs, map (sort_code False) es] \<or>
         map (\<lambda>k. k ! a) [map (sort_code False) vs, map (sort_code False) es] =
           map (\<lambda>k. k ! b) [map (sort_code False) vs, map (sort_code False) es] \<and> a < b"
  shows "ranks_before d a b"
proof -
  have m: "metric d ''views_per_follower'' a = vs ! a" "metric d ''views_per_follower'' b = vs ! b"
    "metric d ''er_per_follower'' a = es ! a" "metric d ''er_per_follower'' b = es ! b"
    using assms(1-5) by (simp_all add: metric_float)
  from assms(3-6) show ?thesis
    unfolding ranks_before_def m
    by (simp add: sort_code_desc) blast
qed

lemma rank_view_example:
  "rank_view nargsort
     \<lparr>nrows = 3,
      columns = [(''id'', [PInt 1, PInt 2, PInt 3]),
                 (''views_per_follower'', [PFloat 0.2, PFloat 0.5, PFloat 0.5]),
                 (''er_per_follower'', [PFloat 0.1, PFloat 0.2, PFloat 0.1])]\<rparr> =
     \<lparr>nrows = 3,
      columns = [(''id'', [PInt 2, PInt 3, PInt 1]),
                 (''views_per_follower'', [PFloat 0.5, PFloat 0.5, PFloat 0.2]),
                 (''er_per_follower'', [PFloat 0.2, PFloat 0.1, PFloat 0.1])]\<rparr>"
proof -
  have u: "[0..<3] = [0, 1, 2]" by (simp add: upt_rec)
  show ?thesis
    by (simp add: rank_view_def has_column_def sort_values_def df_get_def key_cell_def
        sort_code_def lexsort_indexer_def take_rows_def u)
qed

text \<open>
  Claim C3. For the table \<open>d\<close> that the Virality Calculator returns on a table whose
  columns all have one cell per row, the ranked view is \<open>d\<close> with its rows rearranged by a
  permutation, and of any two rows of the view the earlier one ranks before the later one:
  its \<open>views_per_follower\<close> is higher, or these are the same and its \<open>er_per_follower\<close> is
  higher, or both are the same and it came first in the fetch order. So the view is sorted
  descending by \<open>views_per_follower\<close>, ties broken by descending \<open>er_per_follower\<close>, and the
  sort is stable; rows with not-a-number stand after the rows with a number. For a table
  that has neither of the two columns the ranked view is the table itself. The rows with
  \<open>views_per_follower\<close> 0.2, 0.5, 0.5 and \<open>er_per_follower\<close> 0.1, 0.2, 0.1 are ranked
  second, third, first.
\<close>

theorem rank_view_sorted:
  "(wf_df df \<longrightarrow>
      (\<exists>perm. rank_view nargsort (compute_virality co df followers) =
                 take_rows perm (compute_virality co df followers) \<and>
               distinct perm \<and> set perm = {0..<nrows df} \<and>
               (\<forall>i j. i < j \<and> j < nrows df \<longrightarrow>
                  ranks_before (compute_virality co df followers) (perm ! i) (perm ! j)))) \<and>
   (\<not> has_column t ''views_per_follower'' \<and> \<not> has_column t ''er_per_follower'' \<longrightarrow>
      rank_view nargsort t = t) \<and>
   rank_view nargsort
     \<lparr>nrows = 3,
      columns = [(''id'', [PInt 1, PInt 2, PInt 3]),
                 (''views_per_follower'', [PFloat 0.2, PFloat 0.5, PFloat 0.5]),
                 (''er_per_follower'', [PFloat 0.1, PFloat 0.2, PFloat 0.1])]\<rparr> =
     \<lparr>nrows = 3,
      columns = [(''id'', [PInt 2, PInt 3, PInt 1]),
                 (''views_per_follower'', [PFloat 0.5, PFloat 0.5, PFloat 0.2]),
                 (''er_per_follower'', [PFloat 0.2, PFloat 0.1, PFloat 0.1])]\<rparr>"
proof (intro conjI impI)
  assume "wf_df df"
  let ?d = "compute_virality co df followers"
  from compute_virality_metric_columns [OF \<open>wf_df df\<close>, of co followers]
  obtain vs es where l: "length vs = nrows df" "length es = nrows df" "nrows ?d = nrows df"
    and v: "df_get ?d ''views_per_follower'' = Some (map float_cell vs)"
    and e: "df_get ?d ''er_per_follower'' = Some (map float_cell es)"
    by blast
  let ?keys = "[map (sort_code False) vs, map (sort_code False) es]"
  let ?perm = "lexsort_indexer ?keys (nrows df)"
  have r: "rank_view nargsort ?d = take_rows ?perm ?d"
    using rank_view_lexsort [OF v e, of nargsort] l(3) by simp
  have p: "distinct ?perm" "set ?perm = {0..<nrows df}" "length ?perm = nrows df"
    by (rule lexsort_indexer_perm)+
  have "ranks_before ?d (?perm ! i) (?perm ! j)" if "i < j \<and> j < nrows df" for i j
  proof -
    from that have ij: "i < j" "j < nrows df" "i < nrows df" by simp_all
    from ij p have "?perm ! i \<in> {0..<nrows df}" "?perm ! j \<in> {0..<nrows df}"
      by (metis nth_mem)+
    then have a: "?perm ! i < length vs" "?perm ! j < length vs" using l by simp_all
    from v e a _ lexsort_indexer_sorted [OF ij(1,2), of ?keys]
    show ?thesis by (rule ranks_before_codes) (simp add: l)
  qed
  with r p show "\<exists>perm. rank_view nargsort ?d = take_rows perm ?d \<and>
               distinct perm \<and> set perm = {0..<nrows df} \<and>
               (\<forall>i j. i < j \<and> j < nrows df \<longrightarrow> ranks_before ?d (perm ! i) (perm ! j))"
    by blast
next
  assume "\<not> has_column t ''views_per_follower'' \<and> \<not> has_column t ''er_per_follower''"
  then show "rank_view nargsort t = t" by (simp add: rank_view_no_columns)
next
  show "rank_view nargsort
     \<lparr>nrows = 3,
      columns = [(''id'', [PInt 1, PInt 2, PInt 3]),
                 (''views_per_follower'', [PFloat 0.2, PFloat 0.5, PFloat 0.5]),
                 (''er_per_follower'', [PFloat 0.1, PFloat 0.2, PFloat 0.1])]\<rparr> =
     \<lparr>nrows = 3,
      columns = [(''id'', [PInt 2, PInt 3, PInt 1]),
                 (''views_per_follower'', [PFloat 0.5, PFloat 0.5, PFloat 0.2]),
                 (''er_per_follower'', [PFloat 0.2, PFloat 0.1, PFloat 0.1])]\<rparr>"
    by (rule rank_view_example)
qed

text \<open>
  The theorem of C3 at a table of three posts with 10 followers, and at a table without
  the two columns.
\<close>

theorem rank_view_sorted_witness:
  "wf_df \<lparr>nrows = 3, columns = [(''view_count'', [PInt 2, PInt 5, PInt 5]),
                                 (''like_count'', [PInt 1, PInt 2, PInt 1]),
                                 (''comment_count'', [PInt 0, PInt 0, PInt 0])]\<rparr> \<and>
   (\<exists>perm. rank_view nargsort0
              (compute_virality co0
                 \<lparr>nrows = 3, columns = [(''view_count'', [PInt 2, PInt 5, PInt 5]),
                                        (''like_count'', [PInt 1, PInt 2, PInt 1]),
                                        (''comment_count'', [PInt 0, PInt 0, PInt 0])]\<rparr> (Some 10)) =
            take_rows perm
              (compute_virality co0
                 \<lparr>nrows = 3, columns = [(''view_count'', [PInt 2, PInt 5, PInt 5]),
                                        (''like_count'', [PInt 1, PInt 2, PInt 1]),
                                        (''comment_count'', [PInt 0, PInt 0, PInt 0])]\<rparr> (Some 10)) \<and>
            distinct perm \<and> set perm = {0..<3} \<and>
            ranks_before
              (compute_virality co0
                 \<lparr>nrows = 3, columns = [(''view_count'', [PInt 2, PInt 5, PInt 5]),
                                        (''like_count'', [PInt 1, PInt 2, PInt 1]),
                                        (''comment_count'', [PInt 0, PInt 0, PInt 0])]\<rparr> (Some 10))
              (perm ! 0) (perm ! 1)) \<and>
   rank_view nargsort0 \<lparr>nrows = 1, columns = [(''id'', [PInt 1])]\<rparr> =
     \<lparr>nrows = 1, columns = [(''id'', [PInt 1])]\<rparr>"
proof -
  let ?df = "\<lparr>nrows = 3, columns = [(''view_count'', [PInt 2, PInt 5, PInt 5]),
                                 (''like_count'', [PInt 1, PInt 2, PInt 1]),
                                 (''comment_count'', [PInt 0, PInt 0, PInt 0])]\<rparr>"
  let ?t = "\<lparr>nrows = 1, columns = [(''id'', [PInt 1])]\<rparr>"
  have w: "wf_df ?df" by (simp add: wf_df_def)
  have n: "nrows ?df = 3" by simp
  have c: "\<not> has_column ?t ''views_per_follower'' \<and> \<not> has_column ?t ''er_per_follower''"
    by (simp add: has_column_def)
  from rank_view_sorted [of ?df nargsort0 co0 "Some 10" ?t] w c
  obtain perm where p: "rank_view nargsort0 (compute_virality co0 ?df (Some 10)) =
        take_rows perm (compute_virality co0 ?df (Some 10))"
      "distinct perm" "set perm = {0..<nrows ?df}"
      "\<forall>i j. i < j \<and> j < nrows ?df \<longrightarrow>
         ranks_before (compute_virality co0 ?df (Some 10)) (perm ! i) (perm ! j)"
    and t: "rank_view nargsort0 ?t = ?t"
    by blast
  from p(4) have "ranks_before (compute_virality co0 ?df (Some 10)) (perm ! 0) (perm ! 1)"
    unfolding n by simp
  with p(1,2,3) w t show ?thesis unfolding n by blast
qed

end
